theory Spec2Isabelle
  imports Main "HOL-Library.Word" "HOL-Library.Char_ord" "HOL-Library.List_Lexorder"
begin

unbundle bit_operations_syntax

section \<open>Bytes, numbers and hex\<close>

text \<open>
  Go's \<^verbatim>\<open>[]byte\<close> and \<^verbatim>\<open>string\<close> are both byte sequences; both are modelled as
  \<^typ>\<open>char list\<close> (a \<^typ>\<open>char\<close> is one byte).  \<^verbatim>\<open>json.RawMessage\<close> is a byte slice that
  may be \<^verbatim>\<open>nil\<close>: \<^term>\<open>None\<close> is the nil slice.
\<close>

type_synonym bytes = string
type_synonym RawMessage = "bytes option"

definition raw_bytes :: "RawMessage \<Rightarrow> bytes" where
  "raw_bytes m = (case m of None \<Rightarrow> [] | Some b \<Rightarrow> b)"

definition is_digit :: "char \<Rightarrow> bool" where
  "is_digit c = (48 \<le> (of_char c :: nat) \<and> (of_char c :: nat) \<le> 57)"

text \<open>The digit tables of \<^verbatim>\<open>strconv\<close> and \<^verbatim>\<open>encoding/hex\<close> (\<^verbatim>\<open>"0123456789abcdef"\<close>).\<close>

definition hextable :: "nat \<Rightarrow> char" where
  "hextable n = ''0123456789abcdef'' ! n"

text \<open>\<^verbatim>\<open>%d\<close> and \<^verbatim>\<open>strconv.FormatUint(n, 10)\<close>.\<close>

fun show_nat :: "nat \<Rightarrow> string" where
  "show_nat n = (if n < 10 then [hextable n] else show_nat (n div 10) @ [hextable (n mod 10)])"

declare show_nat.simps [simp del]

definition show_int :: "int \<Rightarrow> string" where
  "show_int i = (if i < 0 then CHR ''-'' # show_nat (nat (- i)) else show_nat (nat i))"

text \<open>\<^verbatim>\<open>strconv.ParseUint(s, 10, 64)\<close>: decimal digits only, no sign, at most \<open>2^64 - 1\<close>.\<close>

fun parse_digits :: "nat \<Rightarrow> string \<Rightarrow> nat option" where
  "parse_digits acc [] = Some acc"
| "parse_digits acc (c # cs) =
     (if is_digit c then parse_digits (acc * 10 + (of_char c - 48)) cs else None)"

definition ParseUint64 :: "string \<Rightarrow> 64 word option" where
  "ParseUint64 s =
     (if s = [] then None
      else case parse_digits 0 s of
             None \<Rightarrow> None
           | Some n \<Rightarrow> if n < 18446744073709551616 then Some (word_of_nat n) else None)"

text \<open>\<^verbatim>\<open>binary.BigEndian\<close>: \<^verbatim>\<open>PutUint32\<close> and \<^verbatim>\<open>Uint32\<close> on four bytes.\<close>

definition PutUint32 :: "32 word \<Rightarrow> bytes" where
  "PutUint32 v =
     [char_of (unat (drop_bit 24 v)), char_of (unat (drop_bit 16 v)),
      char_of (unat (drop_bit 8 v)), char_of (unat v)]"

definition Uint32 :: "bytes \<Rightarrow> 32 word" where
  "Uint32 b =
     of_char (b ! 3) OR push_bit 8 (of_char (b ! 2)) OR
     push_bit 16 (of_char (b ! 1)) OR push_bit 24 (of_char (b ! 0))"

text \<open>\<^verbatim>\<open>encoding/hex\<close>: \<^verbatim>\<open>DecodeString\<close> accepts both cases; it reports an invalid
  character before a bad length, pair by pair.\<close>

datatype hex_error = ErrLength | InvalidByteError char

definition fromHexChar :: "char \<Rightarrow> nat option" where
  "fromHexChar c =
     (let b = of_char c :: nat in
      if 48 \<le> b \<and> b \<le> 57 then Some (b - 48)
      else if 97 \<le> b \<and> b \<le> 102 then Some (b - 87)
      else if 65 \<le> b \<and> b \<le> 70 then Some (b - 55)
      else None)"

fun hex_DecodeString :: "string \<Rightarrow> hex_error + bytes" where
  "hex_DecodeString [] = Inr []"
| "hex_DecodeString [p] =
     (case fromHexChar p of None \<Rightarrow> Inl (InvalidByteError p) | Some _ \<Rightarrow> Inl ErrLength)"
| "hex_DecodeString (p # q # s) =
     (case fromHexChar p of
        None \<Rightarrow> Inl (InvalidByteError p)
      | Some a \<Rightarrow>
         (case fromHexChar q of
            None \<Rightarrow> Inl (InvalidByteError q)
          | Some b \<Rightarrow>
             (case hex_DecodeString s of
                Inl e \<Rightarrow> Inl e
              | Inr bs \<Rightarrow> Inr (char_of (a * 16 + b) # bs))))"

fun hex_EncodeToString :: "bytes \<Rightarrow> string" where
  "hex_EncodeToString [] = []"
| "hex_EncodeToString (c # s) =
     hextable (of_char c div 16) # hextable (of_char c mod 16) # hex_EncodeToString s"

section \<open>UTF-8\<close>

definition in_range :: "nat \<Rightarrow> nat \<Rightarrow> char \<Rightarrow> bool" where
  "in_range lo hi c = (lo \<le> (of_char c :: nat) \<and> (of_char c :: nat) \<le> hi)"

text \<open>The width of the well-formed UTF-8 sequence at the head of a string, as
  \<^verbatim>\<open>utf8.DecodeRune\<close> finds it; \<open>0\<close> stands for \<^verbatim>\<open>(RuneError, 1)\<close>, an invalid or
  truncated sequence.\<close>

fun utf8_width :: "string \<Rightarrow> nat" where
  "utf8_width [] = 0"
| "utf8_width (c0 # s) =
     (let b0 = of_char c0 :: nat in
      if b0 < 128 then 1
      else if 194 \<le> b0 \<and> b0 \<le> 223 then
        (case s of c1 # _ \<Rightarrow> if in_range 128 191 c1 then 2 else 0 | _ \<Rightarrow> 0)
      else if 224 \<le> b0 \<and> b0 \<le> 239 then
        (case s of
           c1 # c2 # _ \<Rightarrow>
             if in_range (if b0 = 224 then 160 else 128) (if b0 = 237 then 159 else 191) c1
                \<and> in_range 128 191 c2 then 3 else 0
         | _ \<Rightarrow> 0)
      else if 240 \<le> b0 \<and> b0 \<le> 244 then
        (case s of
           c1 # c2 # c3 # _ \<Rightarrow>
             if in_range (if b0 = 240 then 144 else 128) (if b0 = 244 then 143 else 191) c1
                \<and> in_range 128 191 c2 \<and> in_range 128 191 c3 then 4 else 0
         | _ \<Rightarrow> 0)
      else 0)"

text \<open>\<^verbatim>\<open>utf8.EncodeRune\<close>; surrogates and values beyond U+10FFFF become U+FFFD.\<close>

definition utf8_EncodeRune :: "nat \<Rightarrow> bytes" where
  "utf8_EncodeRune r =
     (if r < 128 then [char_of r]
      else if r < 2048 then [char_of (192 + r div 64), char_of (128 + r mod 64)]
      else if (55296 \<le> r \<and> r \<le> 57343) \<or> 1114111 < r then [CHR 0xEF, CHR 0xBF, CHR 0xBD]
      else if r < 65536 then
        [char_of (224 + r div 4096), char_of (128 + r div 64 mod 64), char_of (128 + r mod 64)]
      else
        [char_of (240 + r div 262144), char_of (128 + r div 4096 mod 64),
         char_of (128 + r div 64 mod 64), char_of (128 + r mod 64)])"

section \<open>The JSON text format, as \<^verbatim>\<open>encoding/json\<close> reads and writes it\<close>

text \<open>
  The repository delegates JSON to Go's standard library.  The model follows the
  library's scanner: a document is validated first (\<^verbatim>\<open>checkValid\<close>), then an object's
  members are visited in order and each value is handed to the struct field whose
  \<^verbatim>\<open>json\<close> tag matches the key.  A \<^verbatim>\<open>json.RawMessage\<close> field keeps the bytes of its
  value as they stand in the input.
\<close>

definition is_ws :: "char \<Rightarrow> bool" where
  "is_ws c = (c = CHR '' '' \<or> c = CHR 0x09 \<or> c = CHR 0x0A \<or> c = CHR 0x0D)"

definition skip_ws :: "string \<Rightarrow> string" where
  "skip_ws s = dropWhile is_ws s"

definition is_hex :: "char \<Rightarrow> bool" where
  "is_hex c = (fromHexChar c \<noteq> None)"

definition scan_lit :: "string \<Rightarrow> string \<Rightarrow> string option" where
  "scan_lit lit s = (if take (length lit) s = lit then Some (drop (length lit) s) else None)"

text \<open>A string literal, read from just after its opening quote: the text between the
  quotes (escapes still in place) and the input after the closing quote.\<close>

fun scan_string :: "string \<Rightarrow> (string \<times> string) option" where
  "scan_string [] = None"
| "scan_string (c # s) =
     (if c = CHR 0x22 then Some ([], s)
      else if c = CHR 0x5C then
        (case s of
           [] \<Rightarrow> None
         | e # s' \<Rightarrow>
            if e = CHR ''u'' then
              (if 4 \<le> length s' \<and> list_all is_hex (take 4 s')
               then map_option (\<lambda>(a, r). (c # e # take 4 s' @ a, r)) (scan_string (drop 4 s'))
               else None)
            else if e \<in> set [CHR 0x22, CHR 0x5C, CHR ''/'', CHR ''b'', CHR ''f'', CHR ''n'',
                              CHR ''r'', CHR ''t'']
            then map_option (\<lambda>(a, r). (c # e # a, r)) (scan_string s')
            else None)
      else if (of_char c :: nat) < 32 then None
      else map_option (\<lambda>(a, r). (c # a, r)) (scan_string s))"

text \<open>A number literal: \<^verbatim>\<open>-?(0|[1-9][0-9]*)(\.[0-9]+)?([eE][+-]?[0-9]+)?\<close>; the result is
  the input after it.\<close>

definition scan_frac :: "string \<Rightarrow> string option" where
  "scan_frac s =
     (case s of
        [] \<Rightarrow> Some s
      | c # r \<Rightarrow>
         if c = CHR ''.'' then
           (case r of
              [] \<Rightarrow> None
            | d # r' \<Rightarrow> if is_digit d then Some (dropWhile is_digit r') else None)
         else Some s)"

definition scan_exp :: "string \<Rightarrow> string option" where
  "scan_exp s =
     (case s of
        [] \<Rightarrow> Some s
      | c # r \<Rightarrow>
         if c = CHR ''e'' \<or> c = CHR ''E'' then
           (case (case r of [] \<Rightarrow> r | sg # r' \<Rightarrow> if sg = CHR ''+'' \<or> sg = CHR ''-'' then r' else r) of
              [] \<Rightarrow> None
            | d # r2 \<Rightarrow> if is_digit d then Some (dropWhile is_digit r2) else None)
         else Some s)"

definition scan_number :: "string \<Rightarrow> string option" where
  "scan_number s =
     (case (case s of [] \<Rightarrow> s | c # r \<Rightarrow> if c = CHR ''-'' then r else s) of
        [] \<Rightarrow> None
      | c # r \<Rightarrow>
         if \<not> is_digit c then None
         else (case scan_frac (if c = CHR ''0'' then r else dropWhile is_digit r) of
                 None \<Rightarrow> None
               | Some s3 \<Rightarrow> scan_exp s3))"

definition maxNestingDepth :: nat where
  "maxNestingDepth = 10000"

text \<open>
  One JSON value at the head of the input; the result is the input after it.  The first
  argument bounds the recursion: every recursive call is made on a strictly shorter
  input, so one more than the input's length is always enough.  The second argument is the number
  of arrays and objects that are open.  \<open>scan_members\<close> also returns the members it read:
  the text of the key between its quotes, and the text of the value.
\<close>

fun scan_string_key :: "string \<Rightarrow> (string \<times> string) option" where
  "scan_string_key [] = None"
| "scan_string_key (c # r) = (if c = CHR 0x22 then scan_string r else None)"

fun scan_value :: "nat \<Rightarrow> nat \<Rightarrow> string \<Rightarrow> string option"
  and scan_elements :: "nat \<Rightarrow> nat \<Rightarrow> string \<Rightarrow> string option"
  and scan_members :: "nat \<Rightarrow> nat \<Rightarrow> string \<Rightarrow> ((string \<times> string) list \<times> string) option"
where
  "scan_value 0 d s = None"
| "scan_value (Suc n) d s =
     (case s of
        [] \<Rightarrow> None
      | c # r \<Rightarrow>
         if c = CHR ''{'' then
           (if maxNestingDepth \<le> d then None
            else case skip_ws r of
                   [] \<Rightarrow> None
                 | c' # r' \<Rightarrow>
                    if c' = CHR ''}'' then Some r'
                    else map_option snd (scan_members n (Suc d) (c' # r')))
         else if c = CHR ''['' then
           (if maxNestingDepth \<le> d then None
            else case skip_ws r of
                   [] \<Rightarrow> None
                 | c' # r' \<Rightarrow>
                    if c' = CHR '']'' then Some r' else scan_elements n (Suc d) (c' # r'))
         else if c = CHR 0x22 then map_option snd (scan_string r)
         else if c = CHR ''-'' \<or> is_digit c then scan_number s
         else if c = CHR ''t'' then scan_lit ''true'' s
         else if c = CHR ''f'' then scan_lit ''false'' s
         else if c = CHR ''n'' then scan_lit ''null'' s
         else None)"
| "scan_elements 0 d s = None"
| "scan_elements (Suc n) d s =
     (case scan_value n d s of
        None \<Rightarrow> None
      | Some r \<Rightarrow>
         (case skip_ws r of
            [] \<Rightarrow> None
          | c # r' \<Rightarrow>
             if c = CHR '','' then scan_elements n d (skip_ws r')
             else if c = CHR '']'' then Some r'
             else None))"
| "scan_members 0 d s = None"
| "scan_members (Suc n) d s =
     (case scan_string_key s of
        None \<Rightarrow> None
      | Some (key, r1) \<Rightarrow>
         (case skip_ws r1 of
            [] \<Rightarrow> None
          | c1 # r2 \<Rightarrow>
             if c1 \<noteq> CHR '':'' then None
             else (case scan_value n d (skip_ws r2) of
                     None \<Rightarrow> None
                   | Some r3 \<Rightarrow>
                      (case skip_ws r3 of
                         [] \<Rightarrow> None
                       | c2 # r4 \<Rightarrow>
                          if c2 = CHR '','' then
                            (case scan_members n d (skip_ws r4) of
                               None \<Rightarrow> None
                             | Some (ms, r5) \<Rightarrow>
                                Some ((key, take (length (skip_ws r2) - length r3) (skip_ws r2)) # ms, r5))
                          else if c2 = CHR ''}'' then
                            Some ([(key, take (length (skip_ws r2) - length r3) (skip_ws r2))], r4)
                          else None))))"

text \<open>\<^verbatim>\<open>checkValid\<close>: the data are one JSON value, with white space around it at most.
  The result is the text of that value.\<close>

definition json_value_text :: "bytes \<Rightarrow> string option" where
  "json_value_text data =
     (case scan_value (Suc (length (skip_ws data))) 0 (skip_ws data) of
        None \<Rightarrow> None
      | Some r \<Rightarrow>
         if skip_ws r = [] then Some (take (length (skip_ws data) - length r) (skip_ws data))
         else None)"

subsection \<open>String literals\<close>

fun hex_value :: "nat \<Rightarrow> string \<Rightarrow> nat option" where
  "hex_value acc [] = Some acc"
| "hex_value acc (c # cs) =
     (case fromHexChar c of None \<Rightarrow> None | Some d \<Rightarrow> hex_value (acc * 16 + d) cs)"

definition getu4 :: "string \<Rightarrow> nat option" where
  "getu4 s =
     (if length s < 6 \<or> s ! 0 \<noteq> CHR 0x5C \<or> s ! 1 \<noteq> CHR ''u'' then None
      else hex_value 0 (take 4 (drop 2 s)))"

definition unescape :: "char \<Rightarrow> char option" where
  "unescape e =
     (if e = CHR 0x22 \<or> e = CHR 0x5C \<or> e = CHR ''/'' \<or> e = CHR 0x27 then Some e
      else if e = CHR ''b'' then Some (CHR 0x08)
      else if e = CHR ''f'' then Some (CHR 0x0C)
      else if e = CHR ''n'' then Some (CHR 0x0A)
      else if e = CHR ''r'' then Some (CHR 0x0D)
      else if e = CHR ''t'' then Some (CHR 0x09)
      else None)"

text \<open>\<^verbatim>\<open>unquote\<close>, on the text between the quotes: escapes are decoded, a \<^verbatim>\<open>\u\<close> escape
  becomes UTF-8 (two escapes when they are a surrogate pair), and bytes that are not
  well-formed UTF-8 are replaced by U+FFFD.\<close>

fun unquote :: "string \<Rightarrow> string option" where
  "unquote [] = Some []"
| "unquote (c # s) =
     (if c = CHR 0x5C then
        (case s of
           [] \<Rightarrow> None
         | e # s' \<Rightarrow>
            if e = CHR ''u'' then
              (case getu4 (c # s) of
                 None \<Rightarrow> None
               | Some rr \<Rightarrow>
                  if 55296 \<le> rr \<and> rr < 57344 then
                    (case getu4 (drop 4 s') of
                       None \<Rightarrow> map_option ((@) [CHR 0xEF, CHR 0xBF, CHR 0xBD]) (unquote (drop 4 s'))
                     | Some rr1 \<Rightarrow>
                        if rr < 56320 \<and> 56320 \<le> rr1 \<and> rr1 < 57344 then
                          map_option ((@) (utf8_EncodeRune ((rr - 55296) * 1024 + (rr1 - 56320) + 65536)))
                            (unquote (drop 10 s'))
                        else map_option ((@) [CHR 0xEF, CHR 0xBF, CHR 0xBD]) (unquote (drop 4 s')))
                  else map_option ((@) (utf8_EncodeRune rr)) (unquote (drop 4 s')))
            else (case unescape e of
                    None \<Rightarrow> None
                  | Some x \<Rightarrow> map_option ((#) x) (unquote s')))
      else if c = CHR 0x22 \<or> (of_char c :: nat) < 32 then None
      else if (of_char c :: nat) < 128 then map_option ((#) c) (unquote s)
      else (case utf8_width (c # s) of
              0 \<Rightarrow> map_option ((@) [CHR 0xEF, CHR 0xBF, CHR 0xBD]) (unquote s)
            | Suc k \<Rightarrow> map_option ((@) (take (Suc k) (c # s))) (unquote (drop k s))))"

text \<open>\<^verbatim>\<open>appendString\<close> with HTML escaping, as \<^verbatim>\<open>json.Marshal\<close> writes a Go string
  (Go 1.22 and later; earlier releases write \<^verbatim>\<open>\u0008\<close> and \<^verbatim>\<open>\u000c\<close> for the two
  bytes written \<^verbatim>\<open>\b\<close> and \<^verbatim>\<open>\f\<close> here).\<close>

fun escape_string :: "string \<Rightarrow> string" where
  "escape_string [] = []"
| "escape_string (c # s) =
     (if (of_char c :: nat) < 128 then
        (if c = CHR 0x5C \<or> c = CHR 0x22 then CHR 0x5C # c # escape_string s
         else if c = CHR 0x08 then CHR 0x5C # CHR ''b'' # escape_string s
         else if c = CHR 0x0C then CHR 0x5C # CHR ''f'' # escape_string s
         else if c = CHR 0x0A then CHR 0x5C # CHR ''n'' # escape_string s
         else if c = CHR 0x0D then CHR 0x5C # CHR ''r'' # escape_string s
         else if c = CHR 0x09 then CHR 0x5C # CHR ''t'' # escape_string s
         else if (of_char c :: nat) < 32 \<or> c = CHR ''<'' \<or> c = CHR ''>'' \<or> c = CHR ''&'' then
           CHR 0x5C # CHR ''u'' # CHR ''0'' # CHR ''0'' # hextable (of_char c div 16)
             # hextable (of_char c mod 16) # escape_string s
         else c # escape_string s)
      else (case utf8_width (c # s) of
              0 \<Rightarrow> CHR 0x5C # ''ufffd'' @ escape_string s
            | Suc k \<Rightarrow>
               if take 3 (c # s) = [CHR 0xE2, CHR 0x80, CHR 0xA8] then
                 CHR 0x5C # ''u2028'' @ escape_string (drop 2 s)
               else if take 3 (c # s) = [CHR 0xE2, CHR 0x80, CHR 0xA9] then
                 CHR 0x5C # ''u2029'' @ escape_string (drop 2 s)
               else take (Suc k) (c # s) @ escape_string (drop k s)))"

definition appendString :: "string \<Rightarrow> bytes" where
  "appendString s = CHR 0x22 # escape_string s @ [CHR 0x22]"

text \<open>\<^verbatim>\<open>appendCompact\<close> with HTML escaping, on a valid document: white space outside
  string literals is dropped; inside them \<^verbatim>\<open><\<close>, \<^verbatim>\<open>>\<close>, \<^verbatim>\<open>&\<close>, U+2028 and U+2029 are
  escaped.  The flag says whether the scan is inside a string literal.\<close>

fun compact :: "bool \<Rightarrow> string \<Rightarrow> string" where
  "compact _ [] = []"
| "compact False (c # s) =
     (if is_ws c then compact False s
      else if c = CHR 0x22 then c # compact True s
      else c # compact False s)"
| "compact True (c # s) =
     (if c = CHR 0x22 then c # compact False s
      else if c = CHR 0x5C then (case s of [] \<Rightarrow> [c] | e # s' \<Rightarrow> c # e # compact True s')
      else if c = CHR ''<'' \<or> c = CHR ''>'' \<or> c = CHR ''&'' then
        CHR 0x5C # CHR ''u'' # CHR ''0'' # CHR ''0'' # hextable (of_char c div 16)
          # hextable (of_char c mod 16) # compact True s
      else if take 3 (c # s) = [CHR 0xE2, CHR 0x80, CHR 0xA8] then
        CHR 0x5C # ''u2028'' @ compact True (drop 2 s)
      else if take 3 (c # s) = [CHR 0xE2, CHR 0x80, CHR 0xA9] then
        CHR 0x5C # ''u2029'' @ compact True (drop 2 s)
      else c # compact True s)"

subsection \<open>Marshalling\<close>

datatype json_error = SyntaxError | UnmarshalTypeError | UnsupportedTypeError | MarshalerError

text \<open>The Go values that the client passes as \<^verbatim>\<open>params\<close>: strings, ints and maps with
  string keys (a list of entries with distinct keys); \<open>GoChan\<close> stands for a value that
  \<^verbatim>\<open>json.Marshal\<close> does not support.  Map entries are written in the order of their keys.\<close>

datatype go_value = GoNil | GoString string | GoInt int | GoMap "(string \<times> go_value) list" | GoChan

fun join_entries :: "(string \<times> bytes) list \<Rightarrow> bytes" where
  "join_entries [] = []"
| "join_entries [(k, v)] = appendString k @ '':'' @ v"
| "join_entries ((k, v) # e # es) = appendString k @ '':'' @ v @ '','' @ join_entries (e # es)"

fun json_Marshal :: "go_value \<Rightarrow> json_error + bytes" where
  "json_Marshal GoNil = Inr ''null''"
| "json_Marshal (GoString s) = Inr (appendString s)"
| "json_Marshal (GoInt i) = Inr (show_int i)"
| "json_Marshal GoChan = Inl UnsupportedTypeError"
| "json_Marshal (GoMap kvs) =
     (if \<exists>kv \<in> set kvs. isl (json_Marshal (snd kv)) then Inl UnsupportedTypeError
      else Inr (''{'' @ join_entries (sort_key fst (map (\<lambda>kv. (fst kv, projr (json_Marshal (snd kv)))) kvs))
                @ ''}''))"

text \<open>A \<^verbatim>\<open>json.RawMessage\<close> field: \<^verbatim>\<open>nil\<close> is written \<^verbatim>\<open>null\<close>; other bytes must be one
  valid document and are written compacted.\<close>

definition Marshal_RawMessage :: "RawMessage \<Rightarrow> json_error + bytes" where
  "Marshal_RawMessage m =
     (case m of
        None \<Rightarrow> Inr ''null''
      | Some b \<Rightarrow> (case json_value_text b of None \<Rightarrow> Inl MarshalerError | Some _ \<Rightarrow> Inr (compact False b)))"

subsection \<open>Unmarshalling into a struct\<close>

text \<open>The members of the object that the data hold, in order: key text and value text.
  \<^verbatim>\<open>null\<close> leaves a struct as it is, like an object without members; any other value
  that is not an object is a type error.\<close>

definition object_members :: "bytes \<Rightarrow> json_error + (string \<times> string) list" where
  "object_members data =
     (case json_value_text data of
        None \<Rightarrow> Inl SyntaxError
      | Some v \<Rightarrow>
         if v = ''null'' then Inr []
         else if take 1 v = ''{'' then
           (case skip_ws (drop 1 v) of
              [] \<Rightarrow> Inl SyntaxError
            | c # r \<Rightarrow>
               if c = CHR ''}'' then Inr []
               else (case scan_members (length v) 1 (c # r) of
                       None \<Rightarrow> Inl SyntaxError
                     | Some (ms, _) \<Rightarrow> Inr ms))
         else Inl UnmarshalTypeError)"

text \<open>Key matching: the exact name first, then the name under \<^verbatim>\<open>foldName\<close>.  All field
  names here are ASCII; the only letters outside ASCII that fold onto ASCII letters are
  U+017F (onto S) and U+212A (onto K), so other bytes are left as they are.\<close>

fun foldName :: "string \<Rightarrow> string" where
  "foldName [] = []"
| "foldName (c # s) =
     (if in_range 97 122 c then (''ABCDEFGHIJKLMNOPQRSTUVWXYZ'' ! (of_char c - 97)) # foldName s
      else if c = CHR 0xC5 \<and> take 1 s = [CHR 0xBF] then CHR ''S'' # foldName (drop 1 s)
      else if c = CHR 0xE2 \<and> take 2 s = [CHR 0x84, CHR 0xAA] then CHR ''K'' # foldName (drop 2 s)
      else c # foldName s)"

definition resolve_field :: "string list \<Rightarrow> string \<Rightarrow> string option" where
  "resolve_field names rawkey =
     (case unquote rawkey of
        None \<Rightarrow> None
      | Some key \<Rightarrow>
         if key \<in> set names then Some key
         else find (\<lambda>n. foldName n = foldName key) names)"

text \<open>Storing a value into a field of a given Go type.  \<^verbatim>\<open>null\<close> leaves a string, a bool
  and an integer unchanged; a \<^verbatim>\<open>json.RawMessage\<close> takes the value's text, \<^verbatim>\<open>null\<close>
  included.\<close>

definition store_string :: "string \<Rightarrow> string \<Rightarrow> json_error + string" where
  "store_string raw old =
     (if raw = ''null'' then Inr old
      else if take 1 raw = [CHR 0x22] \<and> 2 \<le> length raw then
        (case unquote (butlast (drop 1 raw)) of None \<Rightarrow> Inl SyntaxError | Some s \<Rightarrow> Inr s)
      else Inl UnmarshalTypeError)"

definition store_bool :: "string \<Rightarrow> bool \<Rightarrow> json_error + bool" where
  "store_bool raw old =
     (if raw = ''null'' then Inr old
      else if raw = ''true'' then Inr True
      else if raw = ''false'' then Inr False
      else Inl UnmarshalTypeError)"

definition store_uint64 :: "string \<Rightarrow> 64 word \<Rightarrow> json_error + 64 word" where
  "store_uint64 raw old =
     (if raw = ''null'' then Inr old
      else case ParseUint64 raw of None \<Rightarrow> Inl UnmarshalTypeError | Some n \<Rightarrow> Inr n)"

definition store_RawMessage :: "string \<Rightarrow> RawMessage \<Rightarrow> json_error + RawMessage" where
  "store_RawMessage raw old = Inr (Some raw)"

fun decode_members ::
  "string list \<Rightarrow> (string \<Rightarrow> string \<Rightarrow> 's \<Rightarrow> json_error + 's) \<Rightarrow> (string \<times> string) list \<Rightarrow> 's
     \<Rightarrow> json_error + 's" where
  "decode_members names store [] v = Inr v"
| "decode_members names store ((k, raw) # ms) v =
     (case resolve_field names k of
        None \<Rightarrow> decode_members names store ms v
      | Some f \<Rightarrow>
         (case store f raw v of
            Inl e \<Rightarrow> Inl e
          | Inr v' \<Rightarrow> decode_members names store ms v'))"

definition Unmarshal_struct ::
  "string list \<Rightarrow> (string \<Rightarrow> string \<Rightarrow> 's \<Rightarrow> json_error + 's) \<Rightarrow> 's \<Rightarrow> bytes \<Rightarrow> json_error + 's" where
  "Unmarshal_struct names store zero data =
     (case object_members data of
        Inl e \<Rightarrow> Inl e
      | Inr ms \<Rightarrow> decode_members names store ms zero)"

section \<open>The data model\<close>

text \<open>The structs of the package with their \<^verbatim>\<open>json\<close> tags (the lists named \<open>_tags\<close>, in
  declaration order).  The fields of the request and the response carry a prefix, since
  both structs have an \<^verbatim>\<open>ID\<close>.\<close>

record RpcRequest =
  req_ID :: "64 word"
  req_Method :: string
  req_Params :: RawMessage

record RpcResponse =
  resp_ID :: "64 word"
  resp_Result :: RawMessage
  resp_Error :: RawMessage

record Credential =
  Path :: string
  Value :: RawMessage
  LeaseID :: string
  TTL :: "64 word"

record authChallenge =
  Challenge :: string

record authResult =
  Authenticated :: bool
  SessionID :: string

record VaultError =
  Code :: string
  Message :: string
  Detail :: string
  Suggestion :: string
  DocsURL :: string
  Context :: RawMessage

definition store_RpcResponse :: "string \<Rightarrow> string \<Rightarrow> RpcResponse \<Rightarrow> json_error + RpcResponse" where
  "store_RpcResponse f raw v =
     (if f = ''id'' then map_sum id (\<lambda>x. v\<lparr>resp_ID := x\<rparr>) (store_uint64 raw (resp_ID v))
      else if f = ''result'' then map_sum id (\<lambda>x. v\<lparr>resp_Result := x\<rparr>) (store_RawMessage raw (resp_Result v))
      else map_sum id (\<lambda>x. v\<lparr>resp_Error := x\<rparr>) (store_RawMessage raw (resp_Error v)))"

definition RpcResponse_tags :: "string list" where
  "RpcResponse_tags = [''id'', ''result'', ''error'']"

definition Unmarshal_RpcResponse :: "bytes \<Rightarrow> json_error + RpcResponse" where
  "Unmarshal_RpcResponse =
     Unmarshal_struct RpcResponse_tags store_RpcResponse
       \<lparr>resp_ID = 0, resp_Result = None, resp_Error = None\<rparr>"

definition store_Credential :: "string \<Rightarrow> string \<Rightarrow> Credential \<Rightarrow> json_error + Credential" where
  "store_Credential f raw v =
     (if f = ''path'' then map_sum id (\<lambda>x. v\<lparr>Path := x\<rparr>) (store_string raw (Path v))
      else if f = ''value'' then map_sum id (\<lambda>x. v\<lparr>Value := x\<rparr>) (store_RawMessage raw (Value v))
      else if f = ''lease_id'' then map_sum id (\<lambda>x. v\<lparr>LeaseID := x\<rparr>) (store_string raw (LeaseID v))
      else map_sum id (\<lambda>x. v\<lparr>TTL := x\<rparr>) (store_uint64 raw (TTL v)))"

definition Credential_tags :: "string list" where
  "Credential_tags = [''path'', ''value'', ''lease_id'', ''ttl'']"

definition Unmarshal_Credential :: "bytes \<Rightarrow> json_error + Credential" where
  "Unmarshal_Credential =
     Unmarshal_struct Credential_tags store_Credential
       \<lparr>Path = [], Value = None, LeaseID = [], TTL = 0\<rparr>"

definition store_authChallenge :: "string \<Rightarrow> string \<Rightarrow> authChallenge \<Rightarrow> json_error + authChallenge" where
  "store_authChallenge f raw v = map_sum id (\<lambda>x. v\<lparr>Challenge := x\<rparr>) (store_string raw (Challenge v))"

definition authChallenge_tags :: "string list" where
  "authChallenge_tags = [''challenge'']"

definition Unmarshal_authChallenge :: "bytes \<Rightarrow> json_error + authChallenge" where
  "Unmarshal_authChallenge =
     Unmarshal_struct authChallenge_tags store_authChallenge \<lparr>Challenge = []\<rparr>"

definition store_authResult :: "string \<Rightarrow> string \<Rightarrow> authResult \<Rightarrow> json_error + authResult" where
  "store_authResult f raw v =
     (if f = ''authenticated'' then
        map_sum id (\<lambda>x. v\<lparr>Authenticated := x\<rparr>) (store_bool raw (Authenticated v))
      else map_sum id (\<lambda>x. v\<lparr>SessionID := x\<rparr>) (store_string raw (SessionID v)))"

definition authResult_tags :: "string list" where
  "authResult_tags = [''authenticated'', ''session_id'']"

definition Unmarshal_authResult :: "bytes \<Rightarrow> json_error + authResult" where
  "Unmarshal_authResult =
     Unmarshal_struct authResult_tags store_authResult
       \<lparr>Authenticated = False, SessionID = []\<rparr>"

definition store_VaultError :: "string \<Rightarrow> string \<Rightarrow> VaultError \<Rightarrow> json_error + VaultError" where
  "store_VaultError f raw v =
     (if f = ''code'' then map_sum id (\<lambda>x. v\<lparr>Code := x\<rparr>) (store_string raw (Code v))
      else if f = ''message'' then map_sum id (\<lambda>x. v\<lparr>Message := x\<rparr>) (store_string raw (Message v))
      else if f = ''detail'' then map_sum id (\<lambda>x. v\<lparr>Detail := x\<rparr>) (store_string raw (Detail v))
      else if f = ''suggestion'' then
        map_sum id (\<lambda>x. v\<lparr>Suggestion := x\<rparr>) (store_string raw (Suggestion v))
      else if f = ''docs_url'' then map_sum id (\<lambda>x. v\<lparr>DocsURL := x\<rparr>) (store_string raw (DocsURL v))
      else map_sum id (\<lambda>x. v\<lparr>Context := x\<rparr>) (store_RawMessage raw (Context v)))"

definition VaultError_tags :: "string list" where
  "VaultError_tags = [''code'', ''message'', ''detail'', ''suggestion'', ''docs_url'', ''context'']"

definition Unmarshal_VaultError :: "bytes \<Rightarrow> json_error + VaultError" where
  "Unmarshal_VaultError =
     Unmarshal_struct VaultError_tags store_VaultError
       \<lparr>Code = [], Message = [], Detail = [], Suggestion = [], DocsURL = [], Context = None\<rparr>"

text \<open>\<^verbatim>\<open>json.Marshal\<close> of a request: the three fields in declaration order.\<close>

definition Marshal_RpcRequest :: "RpcRequest \<Rightarrow> json_error + bytes" where
  \<open>Marshal_RpcRequest req =
     (case Marshal_RawMessage (req_Params req) of
        Inl e \<Rightarrow> Inl e
      | Inr params \<Rightarrow>
         Inr (''{"id":'' @ show_nat (unat (req_ID req)) @ '',"method":'' @ appendString (req_Method req)
              @ '',"params":'' @ params @ ''}''))\<close>

section \<open>Errors\<close>

text \<open>The error values the package returns.  \<open>Errorf p e\<close> is \<^verbatim>\<open>fmt.Errorf(p + "%w", e)\<close>,
  \<open>ErrorString\<close> an error made from a plain message, \<open>ProtocolError\<close> and \<open>VaultErr\<close> the two
  error types of \<^verbatim>\<open>errors.go\<close>.  A panic that unwinds through a function is the value
  \<open>Panic\<close>.\<close>

datatype error =
    EOF | ErrUnexpectedEOF | ErrClosed | ErrDeadlineExceeded | DialError string
  | JSONError json_error
  | HexError hex_error
  | ProtocolError string
  | VaultErr VaultError
  | Errorf string error
  | ErrorString string
  | Panic string

text \<open>\<^verbatim>\<open>VaultError.Error\<close> and \<^verbatim>\<open>ProtocolError.Error\<close>.  The separator before the detail
  is the string literal of \<^verbatim>\<open>errors.go\<close> byte for byte: a space, the eight bytes
  \<^verbatim>\<open>C3 A2 E2 82 AC E2 80 9D\<close>, a space.\<close>

definition VaultError_Error :: "VaultError \<Rightarrow> string" where
  "VaultError_Error e =
     ''['' @ Code e @ ''] '' @ Message e @
     (if Detail e \<noteq> []
      then [CHR '' '', CHR 0xC3, CHR 0xA2, CHR 0xE2, CHR 0x82, CHR 0xAC, CHR 0xE2, CHR 0x80, CHR 0x9D,
            CHR '' ''] @ Detail e
      else [])"

definition ProtocolError_Error :: "string \<Rightarrow> string" where
  "ProtocolError_Error m = ''protocol error: '' @ m"

section \<open>The transport\<close>

text \<open>
  A \<^verbatim>\<open>net.Conn\<close> as one goroutine sees it during a call: the bytes the peer delivers
  before it closes its side, the bytes written so far, whether \<^verbatim>\<open>Close\<close> was called, the
  deadline set on the connection, and the time.  A \<^verbatim>\<open>time.Time\<close> is an integer, the
  instant counted from the zero value \<^verbatim>\<open>time.Time{}\<close>, which is \<open>0\<close>.  Time does not advance
  inside the model; a read or a write on a connection whose deadline is not after the
  current time fails at once and transfers nothing.  \<^verbatim>\<open>SetDeadline\<close> with the zero time
  removes the deadline.
\<close>

record Conn =
  inbound :: bytes
  outbound :: bytes
  conn_closed :: bool
  conn_deadline :: "int option"
  now :: int

definition deadline_passed :: "Conn \<Rightarrow> bool" where
  "deadline_passed c = (case conn_deadline c of None \<Rightarrow> False | Some d \<Rightarrow> d \<le> now c)"

definition conn_Write :: "Conn \<Rightarrow> bytes \<Rightarrow> error option \<times> Conn" where
  "conn_Write c p =
     (if conn_closed c then (Some ErrClosed, c)
      else if deadline_passed c then (Some ErrDeadlineExceeded, c)
      else (None, c\<lparr>outbound := outbound c @ p\<rparr>))"

text \<open>\<^verbatim>\<open>io.ReadFull\<close> for \<open>n\<close> bytes: nothing is read for \<open>n = 0\<close>; the end of the stream is
  \<^verbatim>\<open>io.EOF\<close> when no byte was read and \<^verbatim>\<open>io.ErrUnexpectedEOF\<close> after some.\<close>

definition io_ReadFull :: "Conn \<Rightarrow> nat \<Rightarrow> (error + bytes) \<times> Conn" where
  "io_ReadFull c n =
     (if n = 0 then (Inr [], c)
      else if conn_closed c then (Inl ErrClosed, c)
      else if deadline_passed c then (Inl ErrDeadlineExceeded, c)
      else if inbound c = [] then (Inl EOF, c)
      else if length (inbound c) < n then (Inl ErrUnexpectedEOF, c\<lparr>inbound := []\<rparr>)
      else (Inr (take n (inbound c)), c\<lparr>inbound := drop n (inbound c)\<rparr>))"

definition conn_SetDeadline :: "Conn \<Rightarrow> int \<Rightarrow> error option \<times> Conn" where
  "conn_SetDeadline c t =
     (if conn_closed c then (Some ErrClosed, c)
      else (None, c\<lparr>conn_deadline := (if t = 0 then None else Some t)\<rparr>))"

definition conn_Close :: "Conn \<Rightarrow> error option \<times> Conn" where
  "conn_Close c = (if conn_closed c then (Some ErrClosed, c) else (None, c\<lparr>conn_closed := True\<rparr>))"

section \<open>The frame codec\<close>

definition maxFrameSize :: nat where
  "maxFrameSize = 16 * 1024 * 1024"

definition writeFrame :: "Conn \<Rightarrow> RpcRequest \<Rightarrow> error option \<times> Conn" where
  "writeFrame w req =
     (case Marshal_RpcRequest req of
        Inl err \<Rightarrow> (Some (Errorf ''marshal request: '' (JSONError err)), w)
      | Inr payload \<Rightarrow>
         (case conn_Write w (PutUint32 (word_of_nat (length payload))) of
            (Some err, w1) \<Rightarrow> (Some (Errorf ''write length: '' err), w1)
          | (None, w1) \<Rightarrow>
             (case conn_Write w1 payload of
                (Some err, w2) \<Rightarrow> (Some (Errorf ''write payload: '' err), w2)
              | (None, w2) \<Rightarrow> (None, w2))))"

definition readFrame :: "Conn \<Rightarrow> (error + RpcResponse) \<times> Conn" where
  "readFrame r =
     (case io_ReadFull r 4 of
        (Inl err, r1) \<Rightarrow> (Inl (Errorf ''read length: '' err), r1)
      | (Inr hdr, r1) \<Rightarrow>
         if maxFrameSize < unat (Uint32 hdr) then
           (Inl (ProtocolError (''frame too large: '' @ show_nat (unat (Uint32 hdr)) @ '' bytes'')), r1)
         else
           (case io_ReadFull r1 (unat (Uint32 hdr)) of
              (Inl err, r2) \<Rightarrow> (Inl (Errorf ''read payload: '' err), r2)
            | (Inr payload, r2) \<Rightarrow>
               (case Unmarshal_RpcResponse payload of
                  Inl err \<Rightarrow> (Inl (Errorf ''unmarshal response: '' (JSONError err)), r2)
                | Inr resp \<Rightarrow> (Inr resp, r2))))"

section \<open>The client\<close>

text \<open>
  A context as \<open>call\<close> can observe it: its deadline, if it has one (\<^verbatim>\<open>Deadline()\<close>
  returns the time and \<^verbatim>\<open>ok\<close>; the time may be the zero time), and whether it has been
  cancelled.  The client holds the connection and the request counter.  The mutex
  makes the exchanges of concurrent callers follow one another; the model is one
  caller's view from the moment it holds the lock.
\<close>

record Ctx =
  Deadline :: "int option"
  Cancelled :: bool

record Client =
  conn :: Conn
  nextID :: "64 word"

definition NewClient :: "string \<Rightarrow> error + Conn \<Rightarrow> error + Client" where
  "NewClient socketPath dial =
     (case dial of
        Inl err \<Rightarrow> Inl (Errorf (''connect unix '' @ socketPath @ '': '') err)
      | Inr cn \<Rightarrow> Inr \<lparr>conn = cn, nextID = 1\<rparr>)"

definition NewTCPClient :: "string \<Rightarrow> error + Conn \<Rightarrow> error + Client" where
  "NewTCPClient addr dial =
     (case dial of
        Inl err \<Rightarrow> Inl (Errorf (''connect tcp '' @ addr @ '': '') err)
      | Inr cn \<Rightarrow> Inr \<lparr>conn = cn, nextID = 1\<rparr>)"

definition Close :: "Client \<Rightarrow> error option \<times> Client" where
  "Close c = (case conn_Close (conn c) of (r, cn) \<Rightarrow> (r, c\<lparr>conn := cn\<rparr>))"

text \<open>The part of \<open>call\<close> after the deadline is set: write the request frame, read one
  response frame, and tell a structured error from a result.\<close>

definition exchange :: "Conn \<Rightarrow> RpcRequest \<Rightarrow> (error + RawMessage) \<times> Conn" where
  "exchange cn req =
     (case writeFrame cn req of
        (Some err, cn1) \<Rightarrow> (Inl err, cn1)
      | (None, cn1) \<Rightarrow>
         (case readFrame cn1 of
            (Inl err, cn2) \<Rightarrow> (Inl err, cn2)
          | (Inr resp, cn2) \<Rightarrow>
             (case resp_Error resp of
                Some e \<Rightarrow>
                  (case Unmarshal_VaultError e of
                     Inl _ \<Rightarrow> (Inl (ProtocolError ''failed to parse error response''), cn2)
                   | Inr vaultErr \<Rightarrow> (Inl (VaultErr vaultErr), cn2))
              | None \<Rightarrow> (Inr (resp_Result resp), cn2))))"

text \<open>\<open>call\<close>: the request takes the counter's value before the increment
  (\<^verbatim>\<open>c.nextID.Add(1) - 1\<close>).  When the context has a deadline it is passed to
  \<^verbatim>\<open>SetDeadline\<close> and, by the deferred call with the zero time, cleared again on every
  path after that; the error of the deferred call is dropped.\<close>

definition call :: "Ctx \<Rightarrow> string \<Rightarrow> go_value \<Rightarrow> Client \<Rightarrow> (error + RawMessage) \<times> Client" where
  "call ctx method params c =
     (case json_Marshal params of
        Inl err \<Rightarrow> (Inl (Errorf ''marshal params: '' (JSONError err)), c)
      | Inr paramsBytes \<Rightarrow>
         (case Deadline ctx of
            Some deadline \<Rightarrow>
              (case conn_SetDeadline (conn c) deadline of
                 (Some err, cn) \<Rightarrow> (Inl err, \<lparr>conn = cn, nextID = nextID c + 1\<rparr>)
               | (None, cn) \<Rightarrow>
                  (case exchange cn
                          \<lparr>req_ID = nextID c + 1 - 1, req_Method = method, req_Params = Some paramsBytes\<rparr> of
                     (r, cn') \<Rightarrow> (r, \<lparr>conn = snd (conn_SetDeadline cn' 0), nextID = nextID c + 1\<rparr>)))
          | None \<Rightarrow>
              (case exchange (conn c)
                      \<lparr>req_ID = nextID c + 1 - 1, req_Method = method, req_Params = Some paramsBytes\<rparr> of
                 (r, cn') \<Rightarrow> (r, \<lparr>conn = cn', nextID = nextID c + 1\<rparr>))))"

text \<open>\<open>Authenticate\<close>.  \<^verbatim>\<open>ed25519.Sign\<close> is a parameter; it panics on a private key that is
  not 64 bytes long, with a message that ends in the length.\<close>

definition Authenticate ::
  "(bytes \<Rightarrow> bytes \<Rightarrow> bytes) \<Rightarrow> Ctx \<Rightarrow> string \<Rightarrow> bytes \<Rightarrow> Client \<Rightarrow> error option \<times> Client" where
  "Authenticate sign ctx agentName privateKey c =
     (case call ctx ''auth.challenge'' (GoMap [(''agent'', GoString agentName)]) c of
        (Inl err, c1) \<Rightarrow> (Some (Errorf ''auth challenge: '' err), c1)
      | (Inr result, c1) \<Rightarrow>
         (case Unmarshal_authChallenge (raw_bytes result) of
            Inl err \<Rightarrow> (Some (Errorf ''parse challenge: '' (JSONError err)), c1)
          | Inr challenge \<Rightarrow>
             (case hex_DecodeString (Challenge challenge) of
                Inl err \<Rightarrow> (Some (Errorf ''decode challenge hex: '' (HexError err)), c1)
              | Inr challengeBytes \<Rightarrow>
                 if length privateKey \<noteq> 64
                 then (Some (Panic (''ed25519: bad private key length: '' @ show_nat (length privateKey))), c1)
                 else
                   (case call ctx ''auth.verify''
                           (GoMap [(''agent'', GoString agentName),
                                   (''signature'', GoString (hex_EncodeToString (sign privateKey challengeBytes)))])
                           c1 of
                      (Inl err, c2) \<Rightarrow> (Some (Errorf ''auth verify: '' err), c2)
                    | (Inr verifyResult, c2) \<Rightarrow>
                       (case Unmarshal_authResult (raw_bytes verifyResult) of
                          Inl err \<Rightarrow> (Some (Errorf ''parse auth result: '' (JSONError err)), c2)
                        | Inr auth \<Rightarrow>
                           if \<not> Authenticated auth
                           then (Some (ErrorString ''authentication rejected by server''), c2)
                           else (None, c2))))))"

definition Retrieve :: "Ctx \<Rightarrow> string \<Rightarrow> int \<Rightarrow> Client \<Rightarrow> (error + Credential) \<times> Client" where
  "Retrieve ctx path ttl c =
     (case call ctx ''credential.retrieve'' (GoMap [(''path'', GoString path), (''ttl'', GoInt ttl)]) c of
        (Inl err, c') \<Rightarrow> (Inl err, c')
      | (Inr result, c') \<Rightarrow>
         (case Unmarshal_Credential (raw_bytes result) of
            Inl err \<Rightarrow> (Inl (Errorf ''parse credential: '' (JSONError err)), c')
          | Inr cred \<Rightarrow> (Inr cred, c')))"

definition ReleaseLease :: "Ctx \<Rightarrow> string \<Rightarrow> Client \<Rightarrow> error option \<times> Client" where
  "ReleaseLease ctx leaseID c =
     (case call ctx ''lease.release'' (GoMap [(''lease_id'', GoString leaseID)]) c of
        (Inl err, c') \<Rightarrow> (Some err, c')
      | (Inr _, c') \<Rightarrow> (None, c'))"

section \<open>Notions used in the statements\<close>

text \<open>A connection on which a write goes through: open, and its deadline, if any, still
  ahead.  A connection is usable under a context when it is open and the deadline in
  force during the call is ahead: the context's own (none when that is the zero time),
  or else the connection's.\<close>

definition usable :: "Ctx \<Rightarrow> Conn \<Rightarrow> bool" where
  "usable ctx cn =
     (\<not> conn_closed cn \<and>
      (case Deadline ctx of None \<Rightarrow> \<not> deadline_passed cn | Some d \<Rightarrow> d = 0 \<or> now cn < d))"

definition healthy :: "Conn \<Rightarrow> bool" where
  "healthy cn = (\<not> conn_closed cn \<and> \<not> deadline_passed cn)"

text \<open>The bytes on the wire for a payload, and what \<open>call\<close> makes of a decoded response.\<close>

definition frame :: "bytes \<Rightarrow> bytes" where
  "frame payload = PutUint32 (word_of_nat (length payload)) @ payload"

definition outcome :: "RpcResponse \<Rightarrow> error + RawMessage" where
  "outcome resp =
     (case resp_Error resp of
        Some e \<Rightarrow>
          (case Unmarshal_VaultError e of
             Inl _ \<Rightarrow> Inl (ProtocolError ''failed to parse error response'')
           | Inr vaultErr \<Rightarrow> Inl (VaultErr vaultErr))
      | None \<Rightarrow> Inr (resp_Result resp))"

text \<open>
  What the peer sent for a field of a struct, read off the members of the object on the
  wire: the value texts of the members whose key selects the field (the exact tag, or
  the tag up to case), in the order sent.  Of these the last that is not \<^verbatim>\<open>null\<close>
  decides a string, a bool or an integer; the last one decides a \<^verbatim>\<open>json.RawMessage\<close>.
  \<open>json_string\<close> is the Go string that the text of a JSON string literal denotes.
\<close>

definition sent :: "string list \<Rightarrow> string \<Rightarrow> (string \<times> string) list \<Rightarrow> string list" where
  "sent tags f ms = map snd (filter (\<lambda>m. resolve_field tags (fst m) = Some f) ms)"

definition json_string :: "string \<Rightarrow> string option" where
  "json_string raw =
     (if take 1 raw = [CHR 0x22] \<and> 2 \<le> length raw then unquote (butlast (drop 1 raw)) else None)"

definition last_string :: "string list \<Rightarrow> string" where
  "last_string raws =
     (case filter (\<lambda>raw. raw \<noteq> ''null'') raws of
        [] \<Rightarrow> []
      | r # rs \<Rightarrow> (case json_string (last (r # rs)) of None \<Rightarrow> [] | Some s \<Rightarrow> s))"

definition last_bool :: "string list \<Rightarrow> bool" where
  "last_bool raws =
     (case filter (\<lambda>raw. raw \<noteq> ''null'') raws of
        [] \<Rightarrow> False
      | r # rs \<Rightarrow> last (r # rs) = ''true'')"

definition last_uint64 :: "string list \<Rightarrow> 64 word" where
  "last_uint64 raws =
     (case filter (\<lambda>raw. raw \<noteq> ''null'') raws of
        [] \<Rightarrow> 0
      | r # rs \<Rightarrow> (case ParseUint64 (last (r # rs)) of None \<Rightarrow> 0 | Some n \<Rightarrow> n))"

definition last_raw :: "string list \<Rightarrow> RawMessage" where
  "last_raw raws = (case raws of [] \<Rightarrow> None | r # rs \<Rightarrow> Some (last (r # rs)))"

text \<open>The effect of one value text on a field, given that it could be stored.\<close>

definition upd_string :: "string \<Rightarrow> string \<Rightarrow> string" where
  "upd_string raw old =
     (if raw = ''null'' then old else case json_string raw of None \<Rightarrow> [] | Some s \<Rightarrow> s)"

definition upd_bool :: "string \<Rightarrow> bool \<Rightarrow> bool" where
  "upd_bool raw old = (if raw = ''null'' then old else raw = ''true'')"

definition upd_uint64 :: "string \<Rightarrow> 64 word \<Rightarrow> 64 word" where
  "upd_uint64 raw old =
     (if raw = ''null'' then old else case ParseUint64 raw of None \<Rightarrow> 0 | Some n \<Rightarrow> n)"

text \<open>The signal of a context has triggered at a given time when the context was cancelled
  or its deadline is not after that time.\<close>

definition ctx_done :: "Ctx \<Rightarrow> int \<Rightarrow> bool" where
  "ctx_done ctx t = (Cancelled ctx \<or> (case Deadline ctx of None \<Rightarrow> False | Some d \<Rightarrow> d \<le> t))"

text \<open>A caller that makes one call after the other on the same client, whatever each
  call returns.\<close>

fun calls :: "(Ctx \<times> string \<times> go_value) list \<Rightarrow> Client \<Rightarrow> Client" where
  "calls [] c = c"
| "calls ((ctx, m, params) # cs) c = calls cs (snd (call ctx m params c))"

text \<open>The number of calls in such a sequence whose parameters \<^verbatim>\<open>json.Marshal\<close> could encode:
  the calls that reach the request counter.\<close>

definition encoded :: "(Ctx \<times> string \<times> go_value) list \<Rightarrow> nat" where
  "encoded cs = length (filter (\<lambda>x. \<not> isl (json_Marshal (snd (snd x)))) cs)"

section \<open>The frame codec and the dispatcher: basic facts\<close>

lemma deadline_passed_inbound [simp]: "deadline_passed (c\<lparr>inbound := x\<rparr>) = deadline_passed c"
  by (simp add: deadline_passed_def split: option.splits)

lemma deadline_passed_outbound [simp]: "deadline_passed (c\<lparr>outbound := x\<rparr>) = deadline_passed c"
  by (simp add: deadline_passed_def split: option.splits)

lemma healthy_inbound [simp]: "healthy (c\<lparr>inbound := x\<rparr>) = healthy c"
  by (simp add: healthy_def)

lemma healthy_outbound [simp]: "healthy (c\<lparr>outbound := x\<rparr>) = healthy c"
  by (simp add: healthy_def)

lemma of_char_char_of_unat: "(of_char (char_of (unat (x :: 32 word))) :: 32 word) = take_bit 8 x"
proof -
  have "(of_char (char_of (unat x)) :: 32 word) = of_nat (of_char (char_of (unat x)))"
    by (simp only: of_nat_of_char)
  also have "\<dots> = of_nat (take_bit 8 (unat x))"
    by (simp add: take_bit_eq_mod)
  also have "\<dots> = take_bit 8 x"
    by (simp add: unsigned_take_bit_eq [symmetric])
  finally show ?thesis .
qed

lemma Uint32_PutUint32: "Uint32 (PutUint32 v) = v"
proof (rule bit_word_eqI)
  fix n assume n: "n < LENGTH(32)"
  consider "n < 8" | "8 \<le> n" "n < 16" | "16 \<le> n" "n < 24" | "24 \<le> n" by linarith
  then show "bit (Uint32 (PutUint32 v)) n = bit v n"
    using n by cases (auto simp add: Uint32_def PutUint32_def of_char_char_of_unat bit_simps)
qed

lemma length_PutUint32: "length (PutUint32 v) = 4"
  by (simp add: PutUint32_def)

lemma unat_frame_length: "length p \<le> maxFrameSize \<Longrightarrow> unat (word_of_nat (length p) :: 32 word) = length p"
  by (simp add: maxFrameSize_def unat_of_nat)

lemma writeFrame_healthy:
  assumes "healthy w" "Marshal_RpcRequest req = Inr payload"
  shows "writeFrame w req = (None, w\<lparr>outbound := outbound w @ frame payload\<rparr>)"
  using assms by (simp add: writeFrame_def conn_Write_def healthy_def frame_def)

lemma readFrame_frame:
  assumes "healthy r" "inbound r = frame p @ rest" "length p \<le> maxFrameSize"
  shows "readFrame r =
    ((case Unmarshal_RpcResponse p of
        Inl err \<Rightarrow> Inl (Errorf ''unmarshal response: '' (JSONError err))
      | Inr resp \<Rightarrow> Inr resp), r\<lparr>inbound := rest\<rparr>)"
proof -
  have hdr: "io_ReadFull r 4 = (Inr (PutUint32 (word_of_nat (length p))), r\<lparr>inbound := p @ rest\<rparr>)"
    using assms by (simp add: io_ReadFull_def healthy_def frame_def PutUint32_def)
  have h1: "healthy (r\<lparr>inbound := p @ rest\<rparr>)"
    using assms(1) by simp
  have body: "io_ReadFull (r\<lparr>inbound := p @ rest\<rparr>) (length p) = (Inr p, r\<lparr>inbound := rest\<rparr>)"
    using h1 by (cases "p = []") (auto simp add: io_ReadFull_def healthy_def)
  show ?thesis
    using assms(3) by (simp add: readFrame_def hdr Uint32_PutUint32 unat_frame_length body split: sum.splits)
qed

lemma readFrame_too_large:
  assumes "healthy r" "length hdr = 4" "inbound r = hdr @ rest" "maxFrameSize < unat (Uint32 hdr)"
  shows "readFrame r =
    (Inl (ProtocolError (''frame too large: '' @ show_nat (unat (Uint32 hdr)) @ '' bytes'')),
     r\<lparr>inbound := rest\<rparr>)"
proof -
  have "io_ReadFull r 4 = (Inr hdr, r\<lparr>inbound := rest\<rparr>)"
    using assms by (auto simp add: io_ReadFull_def healthy_def)
  then show ?thesis
    using assms(4) by (simp add: readFrame_def)
qed

lemma writeFrame_cases:
  "(\<exists>e. writeFrame w req = (Some e, w)) \<or>
   (\<exists>payload. Marshal_RpcRequest req = Inr payload \<and> healthy w \<and>
      writeFrame w req = (None, w\<lparr>outbound := outbound w @ frame payload\<rparr>))"
  by (auto simp add: writeFrame_def conn_Write_def frame_def healthy_def split: sum.splits)

lemma io_ReadFull_keeps:
  "outbound (snd (io_ReadFull r n)) = outbound r \<and> conn_closed (snd (io_ReadFull r n)) = conn_closed r
   \<and> conn_deadline (snd (io_ReadFull r n)) = conn_deadline r \<and> now (snd (io_ReadFull r n)) = now r"
  by (simp add: io_ReadFull_def)

lemma readFrame_keeps:
  "outbound (snd (readFrame r)) = outbound r \<and> conn_closed (snd (readFrame r)) = conn_closed r
   \<and> conn_deadline (snd (readFrame r)) = conn_deadline r \<and> now (snd (readFrame r)) = now r"
proof -
  obtain a r1 where a: "io_ReadFull r 4 = (a, r1)" by (cases "io_ReadFull r 4")
  obtain b r2 where b: "io_ReadFull r1 (unat (Uint32 (projr a))) = (b, r2)"
    by (cases "io_ReadFull r1 (unat (Uint32 (projr a)))")
  from a have k1: "outbound r1 = outbound r \<and> conn_closed r1 = conn_closed r
     \<and> conn_deadline r1 = conn_deadline r \<and> now r1 = now r"
    using io_ReadFull_keeps [of r 4] by simp
  from b have k2: "outbound r2 = outbound r1 \<and> conn_closed r2 = conn_closed r1
     \<and> conn_deadline r2 = conn_deadline r1 \<and> now r2 = now r1"
    using io_ReadFull_keeps [of r1 "unat (Uint32 (projr a))"] by simp
  show ?thesis
    using a b k1 k2 by (auto simp add: readFrame_def split: sum.splits)
qed

lemma exchange_frame:
  assumes "healthy cn" "Marshal_RpcRequest req = Inr payload" "inbound cn = frame p @ rest"
    "length p \<le> maxFrameSize" "Unmarshal_RpcResponse p = Inr resp"
  shows "exchange cn req = (outcome resp, cn\<lparr>inbound := rest, outbound := outbound cn @ frame payload\<rparr>)"
proof -
  have w: "writeFrame cn req = (None, cn\<lparr>outbound := outbound cn @ frame payload\<rparr>)"
    using assms(1,2) by (rule writeFrame_healthy)
  have r: "readFrame (cn\<lparr>outbound := outbound cn @ frame payload\<rparr>) =
      (Inr resp, cn\<lparr>outbound := outbound cn @ frame payload, inbound := rest\<rparr>)"
    using readFrame_frame [of "cn\<lparr>outbound := outbound cn @ frame payload\<rparr>" p rest] assms
    by simp
  show ?thesis
    by (simp add: exchange_def w r outcome_def split: option.splits sum.splits)
qed

lemma exchange_cases:
  "(outbound (snd (exchange cn req)) = outbound cn \<and> isl (fst (exchange cn req))) \<or>
   (\<exists>payload. Marshal_RpcRequest req = Inr payload \<and> healthy cn \<and>
      outbound (snd (exchange cn req)) = outbound cn @ frame payload)"
proof -
  from writeFrame_cases [of cn req] show ?thesis
  proof
    assume "\<exists>e. writeFrame cn req = (Some e, cn)"
    then show ?thesis by (auto simp add: exchange_def)
  next
    assume "\<exists>payload. Marshal_RpcRequest req = Inr payload \<and> healthy cn \<and>
      writeFrame cn req = (None, cn\<lparr>outbound := outbound cn @ frame payload\<rparr>)"
    then obtain payload where p: "Marshal_RpcRequest req = Inr payload" "healthy cn"
      "writeFrame cn req = (None, cn\<lparr>outbound := outbound cn @ frame payload\<rparr>)" by blast
    have "outbound (snd (exchange cn req)) = outbound cn @ frame payload"
      using readFrame_keeps [of "cn\<lparr>outbound := outbound cn @ frame payload\<rparr>"]
      by (auto simp add: exchange_def p(3) split: prod.splits sum.splits option.splits)
    with p show ?thesis by blast
  qed
qed

lemma exchange_keeps:
  "conn_closed (snd (exchange cn req)) = conn_closed cn
   \<and> conn_deadline (snd (exchange cn req)) = conn_deadline cn \<and> now (snd (exchange cn req)) = now cn"
proof -
  from writeFrame_cases [of cn req] show ?thesis
  proof
    assume "\<exists>e. writeFrame cn req = (Some e, cn)"
    then show ?thesis by (auto simp add: exchange_def)
  next
    assume "\<exists>payload. Marshal_RpcRequest req = Inr payload \<and> healthy cn \<and>
      writeFrame cn req = (None, cn\<lparr>outbound := outbound cn @ frame payload\<rparr>)"
    then obtain payload where p:
      "writeFrame cn req = (None, cn\<lparr>outbound := outbound cn @ frame payload\<rparr>)" by blast
    show ?thesis
      using readFrame_keeps [of "cn\<lparr>outbound := outbound cn @ frame payload\<rparr>"]
      by (auto simp add: exchange_def p split: prod.splits sum.splits option.splits)
  qed
qed

lemma conn_SetDeadline_usable:
  assumes "usable ctx cn" "Deadline ctx = Some d"
  shows "conn_SetDeadline cn d = (None, cn\<lparr>conn_deadline := (if d = 0 then None else Some d)\<rparr>)"
    and "healthy (cn\<lparr>conn_deadline := (if d = 0 then None else Some d)\<rparr>)"
  using assms by (auto simp add: usable_def conn_SetDeadline_def healthy_def deadline_passed_def)

lemma call_marshal_fails:
  "json_Marshal params = Inl e \<Longrightarrow>
   call ctx m params c = (Inl (Errorf ''marshal params: '' (JSONError e)), c)"
  by (simp add: call_def)

lemma call_nextID:
  "json_Marshal params = Inr pb \<Longrightarrow> nextID (snd (call ctx m params c)) = nextID c + 1"
  by (simp add: call_def split: option.splits prod.splits)

lemma call_frame:
  assumes "usable ctx (conn c)" "json_Marshal params = Inr pb"
    "Marshal_RpcRequest \<lparr>req_ID = nextID c, req_Method = m, req_Params = Some pb\<rparr> = Inr payload"
    "inbound (conn c) = frame p @ rest" "length p \<le> maxFrameSize" "Unmarshal_RpcResponse p = Inr resp"
  shows "call ctx m params c =
    (outcome resp,
     \<lparr>conn = (conn c)\<lparr>inbound := rest, outbound := outbound (conn c) @ frame payload,
          conn_deadline := (case Deadline ctx of None \<Rightarrow> conn_deadline (conn c) | Some _ \<Rightarrow> None)\<rparr>,
      nextID = nextID c + 1\<rparr>)"
proof (cases "Deadline ctx")
  case None
  then have h: "healthy (conn c)" using assms(1) by (simp add: usable_def healthy_def)
  show ?thesis
    using exchange_frame [OF h assms(3) assms(4) assms(5) assms(6)] None assms(2)
    by (simp add: call_def)
next
  case (Some d)
  define dl where "dl = (if d = 0 then None else Some d)"
  note sd = conn_SetDeadline_usable [OF assms(1) Some, folded dl_def]
  have i: "inbound ((conn c)\<lparr>conn_deadline := dl\<rparr>) = frame p @ rest"
    using assms(4) by simp
  have nc: "\<not> conn_closed (conn c)" using assms(1) by (simp add: usable_def)
  show ?thesis
    using exchange_frame [OF sd(2) assms(3) i assms(5) assms(6)] Some assms(2) nc
    by (simp add: call_def conn_SetDeadline_def dl_def [symmetric])
qed

lemma call_deadline_open:
  assumes "json_Marshal params = Inr pb" "Deadline ctx = Some d" "\<not> conn_closed (conn c)"
    "dl = (if d = 0 then None else Some d)"
  shows "call ctx m params c =
      (fst (exchange ((conn c)\<lparr>conn_deadline := dl\<rparr>)
              \<lparr>req_ID = nextID c, req_Method = m, req_Params = Some pb\<rparr>),
       \<lparr>conn = (snd (exchange ((conn c)\<lparr>conn_deadline := dl\<rparr>)
              \<lparr>req_ID = nextID c, req_Method = m, req_Params = Some pb\<rparr>))\<lparr>conn_deadline := None\<rparr>,
        nextID = nextID c + 1\<rparr>)"
proof -
  obtain r cn' where e: "exchange ((conn c)\<lparr>conn_deadline := dl\<rparr>)
      \<lparr>req_ID = nextID c, req_Method = m, req_Params = Some pb\<rparr> = (r, cn')"
    by (cases "exchange ((conn c)\<lparr>conn_deadline := dl\<rparr>)
      \<lparr>req_ID = nextID c, req_Method = m, req_Params = Some pb\<rparr>")
  have "\<not> conn_closed cn'"
    using exchange_keeps [of "(conn c)\<lparr>conn_deadline := dl\<rparr>"
        "\<lparr>req_ID = nextID c, req_Method = m, req_Params = Some pb\<rparr>"] e assms(3) by simp
  then show ?thesis
    using assms(1,2,3) e by (simp add: call_def conn_SetDeadline_def assms(4) [symmetric])
qed

lemma call_outbound:
  assumes "json_Marshal params = Inr pb"
  shows "(outbound (conn (snd (call ctx m params c))) = outbound (conn c) \<and> isl (fst (call ctx m params c))) \<or>
    (\<exists>payload. Marshal_RpcRequest \<lparr>req_ID = nextID c, req_Method = m, req_Params = Some pb\<rparr> = Inr payload
       \<and> outbound (conn (snd (call ctx m params c))) = outbound (conn c) @ frame payload)"
proof (cases "Deadline ctx")
  case None
  show ?thesis
    using exchange_cases [of "conn c" "\<lparr>req_ID = nextID c, req_Method = m, req_Params = Some pb\<rparr>"]
      None assms
    by (auto simp add: call_def split: prod.splits)
next
  case (Some d)
  show ?thesis
  proof (cases "conn_closed (conn c)")
    case True
    then show ?thesis using Some assms by (simp add: call_def conn_SetDeadline_def)
  next
    case False
    let ?cn = "(conn c)\<lparr>conn_deadline := (if d = 0 then None else Some d)\<rparr>"
    let ?req = "\<lparr>req_ID = nextID c, req_Method = m, req_Params = Some pb\<rparr>"
    note c = call_deadline_open [OF assms Some False refl, of m]
    show ?thesis
      using exchange_cases [of ?cn ?req] by (auto simp add: c)
  qed
qed

lemma show_nat_20000000: "show_nat 20000000 = ''20000000''"
  by (simp add: show_nat.simps hextable_def)

section \<open>The size ceiling on decode\<close>

text \<open>
  Claim C3.  For every declared frame length above 16,777,216 (16 MiB), \<open>readFrame\<close>
  fails with a protocol error, consumes no bytes beyond the four bytes of the header and
  attempts no JSON parse: the result is a function of the header alone and the rest of
  the stream is left in place.  For every declared length up to 16,777,216, that bound
  included, the size check passes: the result is never a protocol error; it is the
  failure to read the payload when the stream ends early, and the decoding of exactly
  the declared number of bytes otherwise.
\<close>

theorem readFrame_size_check:
  assumes "healthy r" "length hdr = 4" "inbound r = hdr @ rest"
  shows "(16777216 < unat (Uint32 hdr) \<longrightarrow>
            readFrame r =
              (Inl (ProtocolError (''frame too large: '' @ show_nat (unat (Uint32 hdr)) @ '' bytes'')),
               r\<lparr>inbound := rest\<rparr>))
       \<and> (unat (Uint32 hdr) \<le> 16777216 \<longrightarrow>
            (\<forall>msg. fst (readFrame r) \<noteq> Inl (ProtocolError msg)) \<and>
            readFrame r =
              (if length rest < unat (Uint32 hdr)
               then (Inl (Errorf ''read payload: '' (if rest = [] then EOF else ErrUnexpectedEOF)),
                     r\<lparr>inbound := []\<rparr>)
               else (case Unmarshal_RpcResponse (take (unat (Uint32 hdr)) rest) of
                       Inl err \<Rightarrow> Inl (Errorf ''unmarshal response: '' (JSONError err))
                     | Inr resp \<Rightarrow> Inr resp,
                     r\<lparr>inbound := drop (unat (Uint32 hdr)) rest\<rparr>)))"
proof -
  have hdr: "io_ReadFull r 4 = (Inr hdr, r\<lparr>inbound := rest\<rparr>)"
    using assms by (auto simp add: io_ReadFull_def healthy_def)
  have h1: "healthy (r\<lparr>inbound := rest\<rparr>)" using assms(1) by simp
  have big: "16777216 < unat (Uint32 hdr) \<Longrightarrow>
      readFrame r = (Inl (ProtocolError (''frame too large: '' @ show_nat (unat (Uint32 hdr)) @ '' bytes'')),
               r\<lparr>inbound := rest\<rparr>)"
    by (simp add: readFrame_def hdr maxFrameSize_def)
  have body: "io_ReadFull (r\<lparr>inbound := rest\<rparr>) (unat (Uint32 hdr)) =
      (if length rest < unat (Uint32 hdr)
       then (Inl (if rest = [] then EOF else ErrUnexpectedEOF), r\<lparr>inbound := []\<rparr>)
       else (Inr (take (unat (Uint32 hdr)) rest), r\<lparr>inbound := drop (unat (Uint32 hdr)) rest\<rparr>))"
    using h1 assms(3) by (auto simp add: io_ReadFull_def healthy_def)
  have small: "unat (Uint32 hdr) \<le> 16777216 \<Longrightarrow>
      readFrame r =
              (if length rest < unat (Uint32 hdr)
               then (Inl (Errorf ''read payload: '' (if rest = [] then EOF else ErrUnexpectedEOF)),
                     r\<lparr>inbound := []\<rparr>)
               else (case Unmarshal_RpcResponse (take (unat (Uint32 hdr)) rest) of
                       Inl err \<Rightarrow> Inl (Errorf ''unmarshal response: '' (JSONError err))
                     | Inr resp \<Rightarrow> Inr resp,
                     r\<lparr>inbound := drop (unat (Uint32 hdr)) rest\<rparr>))"
    by (simp add: readFrame_def hdr maxFrameSize_def body split: sum.splits)
  have nop: "unat (Uint32 hdr) \<le> 16777216 \<Longrightarrow> fst (readFrame r) \<noteq> Inl (ProtocolError msg)" for msg
    by (simp add: small split: sum.splits)
  show ?thesis using big small nop by blast
qed

theorem readFrame_size_check_witness:
  "readFrame \<lparr>inbound = [CHR 0x01, CHR 0x31, CHR 0x2D, CHR 0x00] @ ''{}'', outbound = [],
              conn_closed = False, conn_deadline = None, now = 0\<rparr> =
     (Inl (ProtocolError ''frame too large: 20000000 bytes''),
      \<lparr>inbound = ''{}'', outbound = [], conn_closed = False, conn_deadline = None, now = 0\<rparr>)
   \<and> readFrame \<lparr>inbound = [CHR 0x01, CHR 0x00, CHR 0x00, CHR 0x00] @ ''{}'', outbound = [],
              conn_closed = False, conn_deadline = None, now = 0\<rparr> =
     (Inl (Errorf ''read payload: '' ErrUnexpectedEOF),
      \<lparr>inbound = [], outbound = [], conn_closed = False, conn_deadline = None, now = 0\<rparr>)"
proof -
  let ?r1 = "\<lparr>inbound = [CHR 0x01, CHR 0x31, CHR 0x2D, CHR 0x00] @ ''{}'', outbound = [],
              conn_closed = False, conn_deadline = None, now = 0\<rparr>"
  let ?r2 = "\<lparr>inbound = [CHR 0x01, CHR 0x00, CHR 0x00, CHR 0x00] @ ''{}'', outbound = [],
              conn_closed = False, conn_deadline = None, now = 0\<rparr>"
  have h1: "healthy ?r1" and h2: "healthy ?r2" by (simp_all add: healthy_def deadline_passed_def)
  have u1: "unat (Uint32 [CHR 0x01, CHR 0x31, CHR 0x2D, CHR 0x00]) = 20000000"
    by (simp add: Uint32_def)
  have u2: "unat (Uint32 [CHR 0x01, CHR 0x00, CHR 0x00, CHR 0x00]) = 16777216"
    by (simp add: Uint32_def)
  show ?thesis
    using readFrame_size_check [OF h1, of "[CHR 0x01, CHR 0x31, CHR 0x2D, CHR 0x00]" "''{}''"]
      readFrame_size_check [OF h2, of "[CHR 0x01, CHR 0x00, CHR 0x00, CHR 0x00]" "''{}''"]
    by (simp add: u1 u2 show_nat_20000000)
qed

section \<open>Decoding a struct, member by member\<close>

text \<open>When a document decodes into a struct, every field holds what the members sent for
  it say: the last value that is not \<^verbatim>\<open>null\<close>, or the zero value when there is none.\<close>

lemma resolve_field_in: "resolve_field tags k = Some g \<Longrightarrow> g \<in> set tags"
  by (auto simp add: resolve_field_def find_Some_iff split: option.splits if_splits)

lemma decode_members_field:
  assumes "decode_members tags store ms v0 = Inr v"
    and others: "\<And>g raw u u'. g \<in> set tags \<Longrightarrow> g \<noteq> f \<Longrightarrow> store g raw u = Inr u' \<Longrightarrow> get u' = get u"
    and same: "\<And>raw u u'. store f raw u = Inr u' \<Longrightarrow> get u' = upd raw (get u)"
  shows "get v = foldl (\<lambda>acc raw. upd raw acc) (get v0) (sent tags f ms)"
  using assms(1)
proof (induction ms arbitrary: v0)
  case Nil
  then show ?case by (simp add: sent_def)
next
  case (Cons m ms)
  obtain k raw where m: "m = (k, raw)" by (cases m)
  show ?case
  proof (cases "resolve_field tags k")
    case None
    then show ?thesis using Cons m by (simp add: sent_def)
  next
    case (Some g)
    then obtain v1 where s: "store g raw v0 = Inr v1" and d: "decode_members tags store ms v1 = Inr v"
      using Cons.prems m by (auto split: sum.splits)
    have ih: "get v = foldl (\<lambda>acc raw. upd raw acc) (get v1) (sent tags f ms)"
      using Cons.IH [OF d] .
    show ?thesis
    proof (cases "g = f")
      case True
      then show ?thesis using ih same [of raw v0 v1] s Some m by (simp add: sent_def)
    next
      case False
      then show ?thesis
        using ih others [OF resolve_field_in [OF Some] False s] Some m by (simp add: sent_def)
    qed
  qed
qed

lemma foldl_last_nonnull:
  assumes "\<And>raw a. raw \<noteq> ''null'' \<Longrightarrow> upd raw a = val raw" "\<And>a. upd ''null'' a = a"
  shows "foldl (\<lambda>acc raw. upd raw acc) a raws =
    (case filter (\<lambda>raw. raw \<noteq> ''null'') raws of [] \<Rightarrow> a | r # rs \<Rightarrow> val (last (r # rs)))"
proof (induction raws rule: rev_induct)
  case Nil
  show ?case by simp
next
  case (snoc x xs)
  show ?case
  proof (cases "x = ''null''")
    case True
    then show ?thesis using snoc assms(2) by simp
  next
    case False
    then show ?thesis using assms(1) [OF False]
      by (cases "filter (\<lambda>raw. raw \<noteq> ''null'') xs") simp_all
  qed
qed

lemma foldl_last_raw:
  "foldl (\<lambda>acc raw. Some raw) a raws = (case raws of [] \<Rightarrow> a | r # rs \<Rightarrow> Some (last (r # rs)))"
  by (induction raws rule: rev_induct) (simp_all split: list.splits)

lemma store_string_upd: "store_string raw old = Inr x \<Longrightarrow> x = upd_string raw old"
  by (auto simp add: store_string_def upd_string_def json_string_def split: if_splits option.splits)

lemma store_bool_upd: "store_bool raw old = Inr x \<Longrightarrow> x = upd_bool raw old"
  by (auto simp add: store_bool_def upd_bool_def split: if_splits)

lemma store_uint64_upd: "store_uint64 raw old = Inr x \<Longrightarrow> x = upd_uint64 raw old"
  by (auto simp add: store_uint64_def upd_uint64_def split: if_splits option.splits)

lemma foldl_upd_string: "foldl (\<lambda>acc raw. upd_string raw acc) [] raws = last_string raws"
  unfolding last_string_def
  by (subst foldl_last_nonnull [where val = "\<lambda>raw. case json_string raw of None \<Rightarrow> [] | Some s \<Rightarrow> s"])
    (simp_all add: upd_string_def)

lemma foldl_upd_bool: "foldl (\<lambda>acc raw. upd_bool raw acc) False raws = last_bool raws"
  unfolding last_bool_def
  by (subst foldl_last_nonnull [where val = "\<lambda>raw. raw = ''true''"]) (simp_all add: upd_bool_def)

lemma foldl_upd_uint64: "foldl (\<lambda>acc raw. upd_uint64 raw acc) 0 raws = last_uint64 raws"
  unfolding last_uint64_def
  by (subst foldl_last_nonnull [where val = "\<lambda>raw. case ParseUint64 raw of None \<Rightarrow> 0 | Some n \<Rightarrow> n"])
    (simp_all add: upd_uint64_def)

lemma foldl_upd_raw: "foldl (\<lambda>acc raw. Some raw) None raws = last_raw raws"
  by (simp add: foldl_last_raw last_raw_def)

lemma Unmarshal_struct_members:
  "Unmarshal_struct tags store zero data = Inr v \<Longrightarrow>
   \<exists>ms. object_members data = Inr ms \<and> decode_members tags store ms zero = Inr v"
  by (auto simp add: Unmarshal_struct_def split: sum.splits)

lemma map_sum_Inr: "map_sum id f x = Inr y \<Longrightarrow> \<exists>a. x = Inr a \<and> y = f a"
  by (cases x) auto



lemma Credential_members:
  assumes "Unmarshal_Credential data = Inr v"
  shows "\<exists>ms. object_members data = Inr ms \<and>
      Path v = last_string (sent Credential_tags ''path'' ms) \<and>
      Value v = last_raw (sent Credential_tags ''value'' ms) \<and>
      LeaseID v = last_string (sent Credential_tags ''lease_id'' ms) \<and>
      TTL v = last_uint64 (sent Credential_tags ''ttl'' ms)"
proof -
  obtain ms where ms: "object_members data = Inr ms"
    and d: "decode_members Credential_tags store_Credential ms \<lparr>Path = [], Value = None, LeaseID = [], TTL = 0\<rparr> = Inr v"
    using Unmarshal_struct_members [OF assms [unfolded Unmarshal_Credential_def]] by blast
  have f0: "Path v = last_string (sent Credential_tags ''path'' ms)"
  proof -
    have others: "\<And>g raw u u'. g \<in> set Credential_tags \<Longrightarrow> g \<noteq> ''path'' \<Longrightarrow> store_Credential g raw u = Inr u' \<Longrightarrow> Path u' = Path u"
      by (auto simp add: store_Credential_def Credential_tags_def dest!: map_sum_Inr split: if_splits)
    have same: "\<And>raw u u'. store_Credential ''path'' raw u = Inr u' \<Longrightarrow> Path u' = upd_string raw (Path u)"
      by (auto simp add: store_Credential_def dest!: map_sum_Inr store_string_upd)
    show ?thesis
      using decode_members_field [where get = Path and upd = "upd_string" and f = "''path''", OF d others same] by (simp add: foldl_upd_string)
  qed
  have f1: "Value v = last_raw (sent Credential_tags ''value'' ms)"
  proof -
    have others: "\<And>g raw u u'. g \<in> set Credential_tags \<Longrightarrow> g \<noteq> ''value'' \<Longrightarrow> store_Credential g raw u = Inr u' \<Longrightarrow> Value u' = Value u"
      by (auto simp add: store_Credential_def Credential_tags_def dest!: map_sum_Inr split: if_splits)
    have same: "\<And>raw u u'. store_Credential ''value'' raw u = Inr u' \<Longrightarrow> Value u' = (\<lambda>raw old. Some raw) raw (Value u)"
      by (auto simp add: store_Credential_def store_RawMessage_def dest!: map_sum_Inr)
    show ?thesis
      using decode_members_field [where get = Value and upd = "(\<lambda>raw old. Some raw)" and f = "''value''", OF d others same] by (simp add: foldl_upd_raw)
  qed
  have f2: "LeaseID v = last_string (sent Credential_tags ''lease_id'' ms)"
  proof -
    have others: "\<And>g raw u u'. g \<in> set Credential_tags \<Longrightarrow> g \<noteq> ''lease_id'' \<Longrightarrow> store_Credential g raw u = Inr u' \<Longrightarrow> LeaseID u' = LeaseID u"
      by (auto simp add: store_Credential_def Credential_tags_def dest!: map_sum_Inr split: if_splits)
    have same: "\<And>raw u u'. store_Credential ''lease_id'' raw u = Inr u' \<Longrightarrow> LeaseID u' = upd_string raw (LeaseID u)"
      by (auto simp add: store_Credential_def dest!: map_sum_Inr store_string_upd)
    show ?thesis
      using decode_members_field [where get = LeaseID and upd = "upd_string" and f = "''lease_id''", OF d others same] by (simp add: foldl_upd_string)
  qed
  have f3: "TTL v = last_uint64 (sent Credential_tags ''ttl'' ms)"
  proof -
    have others: "\<And>g raw u u'. g \<in> set Credential_tags \<Longrightarrow> g \<noteq> ''ttl'' \<Longrightarrow> store_Credential g raw u = Inr u' \<Longrightarrow> TTL u' = TTL u"
      by (auto simp add: store_Credential_def Credential_tags_def dest!: map_sum_Inr split: if_splits)
    have same: "\<And>raw u u'. store_Credential ''ttl'' raw u = Inr u' \<Longrightarrow> TTL u' = upd_uint64 raw (TTL u)"
      by (auto simp add: store_Credential_def dest!: map_sum_Inr store_uint64_upd)
    show ?thesis
      using decode_members_field [where get = TTL and upd = "upd_uint64" and f = "''ttl''", OF d others same] by (simp add: foldl_upd_uint64)
  qed
  show ?thesis using ms f0 f1 f2 f3 by blast
qed

lemma authChallenge_members:
  assumes "Unmarshal_authChallenge data = Inr v"
  shows "\<exists>ms. object_members data = Inr ms \<and>
      Challenge v = last_string (sent authChallenge_tags ''challenge'' ms)"
proof -
  obtain ms where ms: "object_members data = Inr ms"
    and d: "decode_members authChallenge_tags store_authChallenge ms \<lparr>Challenge = []\<rparr> = Inr v"
    using Unmarshal_struct_members [OF assms [unfolded Unmarshal_authChallenge_def]] by blast
  have f0: "Challenge v = last_string (sent authChallenge_tags ''challenge'' ms)"
  proof -
    have others: "\<And>g raw u u'. g \<in> set authChallenge_tags \<Longrightarrow> g \<noteq> ''challenge'' \<Longrightarrow> store_authChallenge g raw u = Inr u' \<Longrightarrow> Challenge u' = Challenge u"
      by (auto simp add: store_authChallenge_def authChallenge_tags_def dest!: map_sum_Inr split: if_splits)
    have same: "\<And>raw u u'. store_authChallenge ''challenge'' raw u = Inr u' \<Longrightarrow> Challenge u' = upd_string raw (Challenge u)"
      by (auto simp add: store_authChallenge_def dest!: map_sum_Inr store_string_upd)
    show ?thesis
      using decode_members_field [where get = Challenge and upd = "upd_string" and f = "''challenge''", OF d others same] by (simp add: foldl_upd_string)
  qed
  show ?thesis using ms f0 by blast
qed

lemma authResult_members:
  assumes "Unmarshal_authResult data = Inr v"
  shows "\<exists>ms. object_members data = Inr ms \<and>
      Authenticated v = last_bool (sent authResult_tags ''authenticated'' ms) \<and>
      SessionID v = last_string (sent authResult_tags ''session_id'' ms)"
proof -
  obtain ms where ms: "object_members data = Inr ms"
    and d: "decode_members authResult_tags store_authResult ms \<lparr>Authenticated = False, SessionID = []\<rparr> = Inr v"
    using Unmarshal_struct_members [OF assms [unfolded Unmarshal_authResult_def]] by blast
  have f0: "Authenticated v = last_bool (sent authResult_tags ''authenticated'' ms)"
  proof -
    have others: "\<And>g raw u u'. g \<in> set authResult_tags \<Longrightarrow> g \<noteq> ''authenticated'' \<Longrightarrow> store_authResult g raw u = Inr u' \<Longrightarrow> Authenticated u' = Authenticated u"
      by (auto simp add: store_authResult_def authResult_tags_def dest!: map_sum_Inr split: if_splits)
    have same: "\<And>raw u u'. store_authResult ''authenticated'' raw u = Inr u' \<Longrightarrow> Authenticated u' = upd_bool raw (Authenticated u)"
      by (auto simp add: store_authResult_def dest!: map_sum_Inr store_bool_upd)
    show ?thesis
      using decode_members_field [where get = Authenticated and upd = "upd_bool" and f = "''authenticated''", OF d others same] by (simp add: foldl_upd_bool)
  qed
  have f1: "SessionID v = last_string (sent authResult_tags ''session_id'' ms)"
  proof -
    have others: "\<And>g raw u u'. g \<in> set authResult_tags \<Longrightarrow> g \<noteq> ''session_id'' \<Longrightarrow> store_authResult g raw u = Inr u' \<Longrightarrow> SessionID u' = SessionID u"
      by (auto simp add: store_authResult_def authResult_tags_def dest!: map_sum_Inr split: if_splits)
    have same: "\<And>raw u u'. store_authResult ''session_id'' raw u = Inr u' \<Longrightarrow> SessionID u' = upd_string raw (SessionID u)"
      by (auto simp add: store_authResult_def dest!: map_sum_Inr store_string_upd)
    show ?thesis
      using decode_members_field [where get = SessionID and upd = "upd_string" and f = "''session_id''", OF d others same] by (simp add: foldl_upd_string)
  qed
  show ?thesis using ms f0 f1 by blast
qed

section \<open>The requests of the operations are valid JSON\<close>

text \<open>The scanner accepts every string literal and every integer that \<^verbatim>\<open>json.Marshal\<close>
  writes, so the parameters that \<open>Authenticate\<close> and \<open>Retrieve\<close> pass to \<open>call\<close> always
  make a request.\<close>

lemma scan_string_plain:
  "c \<noteq> CHR 0x22 \<Longrightarrow> c \<noteq> CHR 0x5C \<Longrightarrow> 32 \<le> (of_char c :: nat) \<Longrightarrow>
   scan_string (c # t) = map_option (\<lambda>(a, r). (c # a, r)) (scan_string t)"
  by simp

lemma scan_string_high:
  "\<forall>x\<in>set p. 128 \<le> (of_char x :: nat) \<Longrightarrow>
   scan_string (p @ t) = map_option (\<lambda>(a, r). (p @ a, r)) (scan_string t)"
proof (induction p)
  case Nil
  show ?case by (cases "scan_string t") auto
next
  case (Cons x p)
  have x: "x \<noteq> CHR 0x22" "x \<noteq> CHR 0x5C" "32 \<le> (of_char x :: nat)"
    using Cons.prems by auto
  have "scan_string ((x # p) @ t) = map_option (\<lambda>(a, r). (x # a, r)) (scan_string (p @ t))"
    using scan_string_plain [OF x] by simp
  also have "\<dots> = map_option (\<lambda>(a, r). ((x # p) @ a, r)) (scan_string t)"
    using Cons by (cases "scan_string t") auto
  finally show ?case .
qed

lemma scan_string_esc2:
  "e \<in> set [CHR 0x22, CHR 0x5C, CHR ''/'', CHR ''b'', CHR ''f'', CHR ''n'', CHR ''r'', CHR ''t''] \<Longrightarrow>
   scan_string (CHR 0x5C # e # t) = map_option (\<lambda>(a, r). (CHR 0x5C # e # a, r)) (scan_string t)"
  by auto

lemma scan_string_u:
  "is_hex h1 \<Longrightarrow> is_hex h2 \<Longrightarrow> is_hex h3 \<Longrightarrow> is_hex h4 \<Longrightarrow>
   scan_string (CHR 0x5C # CHR ''u'' # h1 # h2 # h3 # h4 # t)
     = map_option (\<lambda>(a, r). (CHR 0x5C # CHR ''u'' # h1 # h2 # h3 # h4 # a, r)) (scan_string t)"
  by simp

lemma upt_16: "[0..<16] = [0, 1, 2, 3, 4, 5, 6, 7, 8, 9, 10, 11, 12, 13, 14, 15 :: nat]"
  by (simp add: upt_rec)

lemma is_hex_hextable: "n < 16 \<Longrightarrow> is_hex (hextable n)"
proof -
  have "list_all (\<lambda>n. is_hex (hextable n)) [0..<16]"
    unfolding upt_16 by (simp add: hextable_def is_hex_def fromHexChar_def)
  then show "n < 16 \<Longrightarrow> is_hex (hextable n)"
    by (simp add: list_all_iff)
qed

lemma utf8_width_high:
  assumes "128 \<le> (of_char c :: nat)" "utf8_width (c # s) = Suc k"
  shows "k \<le> length s \<and> (\<forall>x\<in>set (take k s). 128 \<le> (of_char x :: nat))"
  using assms
  by (auto simp add: Let_def in_range_def split: if_splits list.splits)


lemma escape_step:
  "\<exists>pre s'. escape_string (c # s) = pre @ escape_string s' \<and> length s' \<le> length s \<and>
     (\<forall>t. scan_string (pre @ t) = map_option (\<lambda>(a, r). (pre @ a, r)) (scan_string t))"
proof (cases "(of_char c :: nat) < 128")
  case True
  have cs: "c = CHR 0x5C \<or> c = CHR 0x22 \<or> c = CHR 0x08 \<or> c = CHR 0x0C \<or> c = CHR 0x0A
      \<or> c = CHR 0x0D \<or> c = CHR 0x09
      \<or> (c \<notin> set [CHR 0x5C, CHR 0x22, CHR 0x08, CHR 0x0C, CHR 0x0A, CHR 0x0D, CHR 0x09]
          \<and> ((of_char c :: nat) < 32 \<or> c = CHR ''<'' \<or> c = CHR ''>'' \<or> c = CHR ''&''))
      \<or> (c \<notin> set [CHR 0x5C, CHR 0x22, CHR 0x08, CHR 0x0C, CHR 0x0A, CHR 0x0D, CHR 0x09]
          \<and> \<not> ((of_char c :: nat) < 32 \<or> c = CHR ''<'' \<or> c = CHR ''>'' \<or> c = CHR ''&''))"
    by auto
  have e1: "c = CHR 0x5C \<Longrightarrow> escape_string (c # s) = CHR 0x5C # CHR 0x5C # escape_string s"
    and e2: "c = CHR 0x22 \<Longrightarrow> escape_string (c # s) = CHR 0x5C # CHR 0x22 # escape_string s"
    and e3: "c = CHR 0x08 \<Longrightarrow> escape_string (c # s) = CHR 0x5C # CHR ''b'' # escape_string s"
    and e4: "c = CHR 0x0C \<Longrightarrow> escape_string (c # s) = CHR 0x5C # CHR ''f'' # escape_string s"
    and e5: "c = CHR 0x0A \<Longrightarrow> escape_string (c # s) = CHR 0x5C # CHR ''n'' # escape_string s"
    and e6: "c = CHR 0x0D \<Longrightarrow> escape_string (c # s) = CHR 0x5C # CHR ''r'' # escape_string s"
    and e7: "c = CHR 0x09 \<Longrightarrow> escape_string (c # s) = CHR 0x5C # CHR ''t'' # escape_string s"
    by simp_all
  have e8: "c \<notin> set [CHR 0x5C, CHR 0x22, CHR 0x08, CHR 0x0C, CHR 0x0A, CHR 0x0D, CHR 0x09]
          \<and> ((of_char c :: nat) < 32 \<or> c = CHR ''<'' \<or> c = CHR ''>'' \<or> c = CHR ''&'') \<Longrightarrow>
       escape_string (c # s) = CHR 0x5C # CHR ''u'' # CHR ''0'' # CHR ''0''
         # hextable (of_char c div 16) # hextable (of_char c mod 16) # escape_string s"
    using True by auto
  have e9: "c \<notin> set [CHR 0x5C, CHR 0x22, CHR 0x08, CHR 0x0C, CHR 0x0A, CHR 0x0D, CHR 0x09]
          \<and> \<not> ((of_char c :: nat) < 32 \<or> c = CHR ''<'' \<or> c = CHR ''>'' \<or> c = CHR ''&'') \<Longrightarrow>
       escape_string (c # s) = c # escape_string s \<and> c \<noteq> CHR 0x22 \<and> c \<noteq> CHR 0x5C
         \<and> 32 \<le> (of_char c :: nat)"
    using True by auto
  consider (two) e where "escape_string (c # s) = CHR 0x5C # e # escape_string s"
      "e \<in> set [CHR 0x22, CHR 0x5C, CHR ''/'', CHR ''b'', CHR ''f'', CHR ''n'', CHR ''r'', CHR ''t'']"
    | (u) "escape_string (c # s) = CHR 0x5C # CHR ''u'' # CHR ''0'' # CHR ''0''
         # hextable (of_char c div 16) # hextable (of_char c mod 16) # escape_string s"
    | (plain) "escape_string (c # s) = c # escape_string s" "c \<noteq> CHR 0x22" "c \<noteq> CHR 0x5C"
        "32 \<le> (of_char c :: nat)"
  proof -
    from cs show ?thesis
    proof (elim disjE)
      assume "c = CHR 0x5C" then show ?thesis using e1 that(1) [of "CHR 0x5C"] by simp
    next
      assume "c = CHR 0x22" then show ?thesis using e2 that(1) [of "CHR 0x22"] by simp
    next
      assume "c = CHR 0x08" then show ?thesis using e3 that(1) [of "CHR ''b''"] by simp
    next
      assume "c = CHR 0x0C" then show ?thesis using e4 that(1) [of "CHR ''f''"] by simp
    next
      assume "c = CHR 0x0A" then show ?thesis using e5 that(1) [of "CHR ''n''"] by simp
    next
      assume "c = CHR 0x0D" then show ?thesis using e6 that(1) [of "CHR ''r''"] by simp
    next
      assume "c = CHR 0x09" then show ?thesis using e7 that(1) [of "CHR ''t''"] by simp
    next
      assume a: "c \<notin> set [CHR 0x5C, CHR 0x22, CHR 0x08, CHR 0x0C, CHR 0x0A, CHR 0x0D, CHR 0x09]
          \<and> ((of_char c :: nat) < 32 \<or> c = CHR ''<'' \<or> c = CHR ''>'' \<or> c = CHR ''&'')"
      show ?thesis using e8 [OF a] that(2) by blast
    next
      assume a: "c \<notin> set [CHR 0x5C, CHR 0x22, CHR 0x08, CHR 0x0C, CHR 0x0A, CHR 0x0D, CHR 0x09]
          \<and> \<not> ((of_char c :: nat) < 32 \<or> c = CHR ''<'' \<or> c = CHR ''>'' \<or> c = CHR ''&'')"
      show ?thesis using e9 [OF a] that(3) by blast
    qed
  qed
  then show ?thesis
  proof cases
    case two
    have "\<forall>t. scan_string ([CHR 0x5C, e] @ t)
        = map_option (\<lambda>(a, r). ([CHR 0x5C, e] @ a, r)) (scan_string t)"
      using scan_string_esc2 [OF two(2)] by simp
    then show ?thesis
      using two(1) by (intro exI [of _ "[CHR 0x5C, e]"] exI [of _ s]) simp
  next
    case u
    have d: "(of_char c :: nat) div 16 < 16" using True by simp
    have z: "is_hex (CHR ''0'')" by (simp add: is_hex_def fromHexChar_def)
    let ?pre = "[CHR 0x5C, CHR ''u'', CHR ''0'', CHR ''0'', hextable (of_char c div 16),
        hextable (of_char c mod 16)]"
    have "\<forall>t. scan_string (?pre @ t) = map_option (\<lambda>(a, r). (?pre @ a, r)) (scan_string t)"
      using scan_string_u [OF z z is_hex_hextable [OF d] is_hex_hextable [of "of_char c mod 16"]]
      by simp
    then show ?thesis
      using u by (intro exI [of _ ?pre] exI [of _ s]) simp
  next
    case plain
    have "\<forall>t. scan_string ([c] @ t) = map_option (\<lambda>(a, r). ([c] @ a, r)) (scan_string t)"
      using scan_string_plain [OF plain(2,3,4)] by simp
    then show ?thesis
      using plain(1) by (intro exI [of _ "[c]"] exI [of _ s]) simp
  qed
next
  case False
  have hx: "is_hex (CHR ''f'')" "is_hex (CHR ''d'')" "is_hex (CHR ''2'')" "is_hex (CHR ''0'')"
    "is_hex (CHR ''8'')" "is_hex (CHR ''9'')"
    by (simp_all add: is_hex_def fromHexChar_def)
  show ?thesis
  proof (cases "utf8_width (c # s)")
    case 0
    let ?pre = "CHR 0x5C # ''ufffd''"
    have e: "escape_string (c # s) = ?pre @ escape_string s"
      using False 0 by (simp del: utf8_width.simps)
    have "\<forall>t. scan_string (?pre @ t) = map_option (\<lambda>(a, r). (?pre @ a, r)) (scan_string t)"
      using scan_string_u [OF hx(1) hx(1) hx(1) hx(2)] by simp
    then show ?thesis
      using e by (intro exI [of _ ?pre] exI [of _ s]) simp
  next
    case (Suc k)
    have hi: "k \<le> length s \<and> (\<forall>x\<in>set (take k s). 128 \<le> (of_char x :: nat))"
      using utf8_width_high [OF _ Suc] False by simp
    consider (ls) "take 3 (c # s) = [CHR 0xE2, CHR 0x80, CHR 0xA8]"
      | (ps) "take 3 (c # s) = [CHR 0xE2, CHR 0x80, CHR 0xA9]"
      | (copy) "take 3 (c # s) \<noteq> [CHR 0xE2, CHR 0x80, CHR 0xA8]"
          "take 3 (c # s) \<noteq> [CHR 0xE2, CHR 0x80, CHR 0xA9]"
      by blast
    then show ?thesis
    proof cases
      case ls
      let ?pre = "CHR 0x5C # ''u2028''"
      have e: "escape_string (c # s) = ?pre @ escape_string (drop 2 s)"
        using False Suc ls by (simp del: utf8_width.simps)
      have "\<forall>t. scan_string (?pre @ t) = map_option (\<lambda>(a, r). (?pre @ a, r)) (scan_string t)"
        using scan_string_u [OF hx(3) hx(4) hx(3) hx(5)] by simp
      then show ?thesis
        using e by (intro exI [of _ ?pre] exI [of _ "drop 2 s"]) simp
    next
      case ps
      let ?pre = "CHR 0x5C # ''u2029''"
      have e: "escape_string (c # s) = ?pre @ escape_string (drop 2 s)"
        using False Suc ps by (simp del: utf8_width.simps)
      have "\<forall>t. scan_string (?pre @ t) = map_option (\<lambda>(a, r). (?pre @ a, r)) (scan_string t)"
        using scan_string_u [OF hx(3) hx(4) hx(3) hx(6)] by simp
      then show ?thesis
        using e by (intro exI [of _ ?pre] exI [of _ "drop 2 s"]) simp
    next
      case copy
      let ?pre = "c # take k s"
      have e: "escape_string (c # s) = ?pre @ escape_string (drop k s)"
        using False Suc copy by (simp del: utf8_width.simps)
      have "\<forall>x\<in>set ?pre. 128 \<le> (of_char x :: nat)"
        using hi False by simp
      then have "\<forall>t. scan_string (?pre @ t) = map_option (\<lambda>(a, r). (?pre @ a, r)) (scan_string t)"
        using scan_string_high [of ?pre] by blast
      then show ?thesis
        using e by (intro exI [of _ ?pre] exI [of _ "drop k s"]) simp
    qed
  qed
qed

lemma scan_string_escape:
  "scan_string (escape_string s @ CHR 0x22 # r) = Some (escape_string s, r)"
proof (induction "length s" arbitrary: s rule: less_induct)
  case less
  show ?case
  proof (cases s)
    case Nil
    then show ?thesis by simp
  next
    case (Cons c s0)
    obtain pre s' where p: "escape_string (c # s0) = pre @ escape_string s'" "length s' \<le> length s0"
      "\<forall>t. scan_string (pre @ t) = map_option (\<lambda>(a, r). (pre @ a, r)) (scan_string t)"
      using escape_step [of c s0] by blast
    have ih: "scan_string (escape_string s' @ CHR 0x22 # r) = Some (escape_string s', r)"
      using less [of s'] p(2) Cons by simp
    have "scan_string (escape_string s @ CHR 0x22 # r)
        = scan_string (pre @ (escape_string s' @ CHR 0x22 # r))"
      using Cons p(1) by simp
    also have "\<dots> = Some (pre @ escape_string s', r)"
      using p(3) ih by simp
    finally show ?thesis using Cons p(1) by simp
  qed
qed

lemma scan_value_string:
  "scan_value (Suc n) d (appendString s @ r) = Some r"
  by (simp add: appendString_def scan_string_escape)


lemma upt_10: "[0..<10] = [0, 1, 2, 3, 4, 5, 6, 7, 8, 9 :: nat]"
  by (simp add: upt_rec)

lemma hextable_digit: "n < 10 \<Longrightarrow> is_digit (hextable n) \<and> (hextable n = CHR ''0'' \<longrightarrow> n = 0)"
proof -
  have "list_all (\<lambda>n. is_digit (hextable n) \<and> (hextable n = CHR ''0'' \<longrightarrow> n = 0)) [0..<10]"
    unfolding upt_10 by (simp add: hextable_def is_digit_def)
  then show "n < 10 \<Longrightarrow> is_digit (hextable n) \<and> (hextable n = CHR ''0'' \<longrightarrow> n = 0)"
    by (simp add: list_all_iff)
qed

lemma show_nat_digits:
  "show_nat n \<noteq> [] \<and> list_all is_digit (show_nat n) \<and> (hd (show_nat n) = CHR ''0'' \<longrightarrow> n = 0)"
proof (induction n rule: show_nat.induct)
  case (1 n)
  show ?case
  proof (cases "n < 10")
    case True
    then show ?thesis using hextable_digit [of n] by (simp add: show_nat.simps [of n])
  next
    case False
    then have ih: "show_nat (n div 10) \<noteq> [] \<and> list_all is_digit (show_nat (n div 10))
        \<and> (hd (show_nat (n div 10)) = CHR ''0'' \<longrightarrow> n div 10 = 0)"
      using 1 by simp
    have d: "is_digit (hextable (n mod 10))" using hextable_digit [of "n mod 10"] by simp
    have nz: "n div 10 \<noteq> 0" using False by simp
    show ?thesis
      using False ih d nz by (simp add: show_nat.simps [of n])
  qed
qed

lemma scan_number_show_nat:
  "scan_number (show_nat n @ CHR ''}'' # r) = Some (CHR ''}'' # r)"
  "scan_number (CHR ''-'' # show_nat n @ CHR ''}'' # r) = Some (CHR ''}'' # r)"
proof -
  obtain d ds where s: "show_nat n = d # ds"
    using show_nat_digits [of n] by (cases "show_nat n") auto
  have dd: "is_digit d" "list_all is_digit ds" "d = CHR ''0'' \<longrightarrow> n = 0"
    using show_nat_digits [of n] s by auto
  have z: "d = CHR ''0'' \<Longrightarrow> ds = []"
    using dd(3) s by (simp add: show_nat.simps [of 0] hextable_def)
  have nm: "d \<noteq> CHR ''-''" using dd(1) by (auto simp add: is_digit_def)
  have dw: "dropWhile is_digit (ds @ CHR ''}'' # r) = CHR ''}'' # r"
    using dd(2) by (simp add: dropWhile_append2 list_all_iff is_digit_def)
  show "scan_number (show_nat n @ CHR ''}'' # r) = Some (CHR ''}'' # r)"
    using dd(1) nm z dw by (simp add: s scan_number_def scan_frac_def scan_exp_def)
  show "scan_number (CHR ''-'' # show_nat n @ CHR ''}'' # r) = Some (CHR ''}'' # r)"
    using dd(1) nm z dw by (simp add: s scan_number_def scan_frac_def scan_exp_def)
qed

lemma show_int_head:
  "\<exists>c cs. show_int i = c # cs \<and> (c = CHR ''-'' \<or> is_digit c)"
proof -
  obtain c cs where s: "show_nat (nat i) = c # cs"
    using show_nat_digits [of "nat i"] by (cases "show_nat (nat i)") auto
  have "is_digit c" using show_nat_digits [of "nat i"] s by auto
  then show ?thesis using s by (simp add: show_int_def)
qed

lemma scan_value_show_int:
  "scan_value (Suc n) d (show_int i @ CHR ''}'' # r) = Some (CHR ''}'' # r)"
proof -
  obtain c cs where s: "show_int i = c # cs" "c = CHR ''-'' \<or> is_digit c"
    using show_int_head [of i] by blast
  have ne: "c \<noteq> CHR ''{''" "c \<noteq> CHR ''[''" "c \<noteq> CHR 0x22"
    using s(2) by (auto simp add: is_digit_def)
  have "scan_number (show_int i @ CHR ''}'' # r) = Some (CHR ''}'' # r)"
    using scan_number_show_nat [of "nat i" r] scan_number_show_nat [of "nat (- i)" r]
    by (simp add: show_int_def)
  then show ?thesis
    using s ne by simp
qed

lemma marshal_agent_params:
  \<open>json_Marshal (GoMap [(''agent'', GoString a)]) = Inr (''{"agent":'' @ appendString a @ ''}'')\<close>
  by (simp add: appendString_def)

lemma marshal_verify_params:
  \<open>json_Marshal (GoMap [(''agent'', GoString a), (''signature'', GoString sg)])
   = Inr (''{"agent":'' @ appendString a @ '',"signature":'' @ appendString sg @ ''}'')\<close>
  by (simp add: appendString_def)

lemma marshal_retrieve_params:
  \<open>json_Marshal (GoMap [(''path'', GoString path), (''ttl'', GoInt ttl)])
   = Inr (''{"path":'' @ appendString path @ '',"ttl":'' @ show_int ttl @ ''}'')\<close>
  by (simp add: appendString_def)

lemma skip_ws_simps:
  "skip_ws [] = []"
  "skip_ws (c # r) = (if is_ws c then skip_ws r else c # r)"
  by (simp_all add: skip_ws_def)

lemma skip_ws_appendString: "skip_ws (appendString s @ r) = appendString s @ r"
  by (simp add: skip_ws_def appendString_def is_ws_def)

lemma skip_ws_show_int: "skip_ws (show_int i @ r) = show_int i @ r"
proof -
  obtain c cs where s: "show_int i = c # cs" "c = CHR ''-'' \<or> is_digit c"
    using show_int_head [of i] by blast
  have "\<not> is_ws c" using s(2) by (auto simp add: is_digit_def is_ws_def)
  then show ?thesis using s(1) by (simp add: skip_ws_def)
qed

lemma scan_value_object:
  "scan_value (Suc n) d (CHR ''{'' # CHR 0x22 # r) =
     (if maxNestingDepth \<le> d then None else map_option snd (scan_members n (Suc d) (CHR 0x22 # r)))"
  by (simp add: skip_ws_def is_ws_def)

lemmas scan_symbolic =
  json_value_text_def skip_ws_simps skip_ws_appendString skip_ws_show_int is_ws_def
  scan_value_object scan_value_string scan_value_show_int maxNestingDepth_def

lemma valid_agent_params:
  \<open>json_value_text (''{"agent":'' @ appendString a @ ''}'') \<noteq> None\<close>
  by (simp add: scan_symbolic del: scan_value.simps)

lemma valid_verify_params:
  \<open>json_value_text (''{"agent":'' @ appendString a @ '',"signature":'' @ appendString sg @ ''}'') \<noteq> None\<close>
  by (simp add: scan_symbolic del: scan_value.simps)

lemma valid_retrieve_params:
  \<open>json_value_text (''{"path":'' @ appendString path @ '',"ttl":'' @ show_int ttl @ ''}'') \<noteq> None\<close>
proof -
  obtain c cs where s: "show_int ttl = c # cs" using show_int_head [of ttl] by blast
  have k: "length (show_int ttl) = Suc (length cs)" using s by simp
  show ?thesis
    by (simp add: scan_symbolic k del: scan_value.simps)
qed

lemma Marshal_RpcRequest_valid:
  assumes "json_value_text pb \<noteq> None"
  shows \<open>Marshal_RpcRequest \<lparr>req_ID = i, req_Method = m, req_Params = Some pb\<rparr> =
    Inr (''{"id":'' @ show_nat (unat i) @ '',"method":'' @ appendString m @ '',"params":''
         @ compact False pb @ ''}'')\<close>
  using assms by (auto simp add: Marshal_RpcRequest_def Marshal_RawMessage_def)

lemma usable_after_call:
  assumes "usable ctx cn"
  shows "usable ctx (cn\<lparr>inbound := i, outbound := out,
     conn_deadline := (case Deadline ctx of None \<Rightarrow> conn_deadline cn | Some x \<Rightarrow> None)\<rparr>)"
  using assms by (auto simp add: usable_def deadline_passed_def split: option.splits)

section \<open>Hex strings, decimal numbers and the request counter\<close>

text \<open>The counter after a sequence of calls; when \<^verbatim>\<open>hex.DecodeString\<close> fails; and the
  integer that a decimal numeral on the wire decodes to.\<close>

lemma calls_nextID: "nextID (calls cs c) = nextID c + word_of_nat (encoded cs)"
proof (induction cs arbitrary: c)
  case Nil
  show ?case by (simp add: encoded_def)
next
  case (Cons x cs)
  obtain ctx m params where x: "x = (ctx, m, params)" by (cases x)
  show ?case
  proof (cases "json_Marshal params")
    case (Inl e)
    have "calls (x # cs) c = calls cs c" using x Inl by (simp add: call_marshal_fails)
    moreover have "encoded (x # cs) = encoded cs" using x Inl by (simp add: encoded_def)
    ultimately show ?thesis using Cons by simp
  next
    case (Inr pb)
    have "nextID (calls (x # cs) c) = nextID (snd (call ctx m params c)) + word_of_nat (encoded cs)"
      using Cons x by simp
    moreover have "encoded (x # cs) = Suc (encoded cs)" using x Inr by (simp add: encoded_def)
    ultimately show ?thesis using call_nextID [OF Inr] by simp
  qed
qed

lemma hex_DecodeString_fails:
  "isl (hex_DecodeString s) \<longleftrightarrow> odd (length s) \<or> \<not> list_all is_hex s"
proof (induction s rule: hex_DecodeString.induct)
  case 1
  show ?case by simp
next
  case (2 p)
  show ?case by (simp add: is_hex_def split: option.splits)
next
  case (3 p q s)
  show ?case
  proof (cases "fromHexChar p")
    case None
    then show ?thesis by (simp add: is_hex_def)
  next
    case sp: (Some a)
    show ?thesis
    proof (cases "fromHexChar q")
      case None
      then show ?thesis using sp by (simp add: is_hex_def)
    next
      case sq: (Some b)
      have ih: "isl (hex_DecodeString s) \<longleftrightarrow> odd (length s) \<or> \<not> list_all is_hex s"
        using 3 sp sq by simp
      have hp: "is_hex p" and hq: "is_hex q"
        using sp sq by (simp_all add: is_hex_def)
      show ?thesis
        using sp sq ih hp hq by (cases "hex_DecodeString s") simp_all
    qed
  qed
qed

lemma parse_digits_append:
  "parse_digits acc (xs @ ys) =
     (case parse_digits acc xs of None \<Rightarrow> None | Some a \<Rightarrow> parse_digits a ys)"
  by (induction xs arbitrary: acc) simp_all

lemma hextable_value: "n < 10 \<Longrightarrow> (of_char (hextable n) :: nat) - 48 = n"
proof -
  have "list_all (\<lambda>n. (of_char (hextable n) :: nat) - 48 = n) [0..<10]"
    unfolding upt_10 by (simp add: hextable_def)
  then show "n < 10 \<Longrightarrow> (of_char (hextable n) :: nat) - 48 = n"
    by (simp add: list_all_iff)
qed

lemma parse_digits_show_nat: "parse_digits 0 (show_nat n) = Some n"
proof (induction n rule: show_nat.induct)
  case (1 n)
  show ?case
  proof (cases "n < 10")
    case True
    then show ?thesis
      using hextable_digit [of n] hextable_value [of n] by (simp add: show_nat.simps [of n])
  next
    case False
    then have ih: "parse_digits 0 (show_nat (n div 10)) = Some (n div 10)" using 1 by simp
    have d: "is_digit (hextable (n mod 10))" using hextable_digit [of "n mod 10"] by simp
    have v: "(of_char (hextable (n mod 10)) :: nat) - 48 = n mod 10"
      using hextable_value [of "n mod 10"] by simp
    show ?thesis
      using False ih d v by (simp add: show_nat.simps [of n] parse_digits_append)
  qed
qed

lemma ParseUint64_show_nat:
  "n < 18446744073709551616 \<Longrightarrow> ParseUint64 (show_nat n) = Some (word_of_nat n)"
  using show_nat_digits [of n] by (simp add: ParseUint64_def parse_digits_show_nat)

lemma show_nat_not_null: "show_nat n \<noteq> ''null''"
  using show_nat_digits [of n] by (auto simp add: is_digit_def)

lemma last_filter_keeps:
  assumes "xs \<noteq> []" "P (last xs)"
  shows "last (filter P xs) = last xs"
proof -
  have "filter P (butlast xs @ [last xs]) = filter P (butlast xs) @ [last xs]"
    using assms(2) by simp
  then show ?thesis using assms(1) by (simp del: filter_append)
qed

lemma last_uint64_show_nat:
  assumes "raws \<noteq> []" "last raws = show_nat n" "n < 18446744073709551616"
  shows "last_uint64 raws = word_of_nat n"
proof -
  have ne: "last raws \<noteq> ''null''" using assms(2) show_nat_not_null [of n] by simp
  have mem: "last raws \<in> set (filter (\<lambda>raw. raw \<noteq> ''null'') raws)"
    using assms(1) ne by simp
  then obtain r rs where f: "filter (\<lambda>raw. raw \<noteq> ''null'') raws = r # rs"
    by (cases "filter (\<lambda>raw. raw \<noteq> ''null'') raws") auto
  have l: "last (filter (\<lambda>raw. raw \<noteq> ''null'') raws) = last raws"
    using assms(1) ne by (simp add: last_filter_keeps)
  have "last (r # rs) = show_nat n" using f l assms(2) by simp
  then show ?thesis
    using f assms(3) by (simp add: last_uint64_def ParseUint64_show_nat del: last.simps)
qed

lemma word64_of_nat_distinct:
  assumes "n < 18446744073709551616" "k < n"
  shows "(word_of_nat k :: 64 word) \<noteq> word_of_nat n"
proof
  assume "(word_of_nat k :: 64 word) = word_of_nat n"
  then have "unat (word_of_nat k :: 64 word) = unat (word_of_nat n :: 64 word)" by simp
  then show False using assms by (simp add: unat_of_nat)
qed

section \<open>Concrete documents\<close>

text \<open>The equations that evaluate the codec on a concrete document, and the documents
  used below.\<close>


lemmas json_scan_defs =
  json_value_text_def object_members_def skip_ws_def is_ws_def scan_lit_def scan_number_def
  scan_frac_def scan_exp_def is_digit_def is_hex_def fromHexChar_def maxNestingDepth_def in_range_def

lemmas json_store_defs =
  Unmarshal_struct_def resolve_field_def store_string_def store_bool_def store_uint64_def
  store_RawMessage_def ParseUint64_def unescape_def getu4_def
  RpcResponse_tags_def Credential_tags_def authChallenge_tags_def authResult_tags_def
  VaultError_tags_def

lemmas json_marshal_defs =
  Marshal_RpcRequest_def Marshal_RawMessage_def appendString_def show_nat.simps show_int_def
  hextable_def

lemma marshal_empty_params: \<open>json_Marshal (GoMap []) = Inr ''{}''\<close>
  by simp

lemma marshal_list_request_1:
  \<open>Marshal_RpcRequest \<lparr>req_ID = 1, req_Method = ''credential.list'', req_Params = Some ''{}''\<rparr>
   = Inr ''{"id":1,"method":"credential.list","params":{}}''\<close>
  by (simp add: json_marshal_defs json_scan_defs)

lemma unmarshal_response_id2:
  \<open>Unmarshal_RpcResponse ''{"id":2,"result":true}''
   = Inr \<lparr>resp_ID = 2, resp_Result = Some ''true'', resp_Error = None\<rparr>\<close>
  by (simp add: Unmarshal_RpcResponse_def store_RpcResponse_def json_store_defs json_scan_defs)





lemma marshal_test_request:
  \<open>Marshal_RpcRequest \<lparr>req_ID = 1, req_Method = ''test.method'', req_Params = Some ''{"key":"value"}''\<rparr>
   = Inr ''{"id":1,"method":"test.method","params":{"key":"value"}}''\<close>
  by (simp add: json_marshal_defs json_scan_defs)

lemma marshal_other_request:
  \<open>Marshal_RpcRequest \<lparr>req_ID = 1, req_Method = ''other'', req_Params = Some ''[]''\<rparr>
   = Inr ''{"id":1,"method":"other","params":[]}''\<close>
  by (simp add: json_marshal_defs json_scan_defs)

lemma unmarshal_test_request_as_response:
  \<open>Unmarshal_RpcResponse ''{"id":1,"method":"test.method","params":{"key":"value"}}''
   = Inr \<lparr>resp_ID = 1, resp_Result = None, resp_Error = None\<rparr>\<close>
  by (simp add: Unmarshal_RpcResponse_def store_RpcResponse_def json_store_defs json_scan_defs)

lemma unmarshal_other_request_as_response:
  \<open>Unmarshal_RpcResponse ''{"id":1,"method":"other","params":[]}''
   = Inr \<lparr>resp_ID = 1, resp_Result = None, resp_Error = None\<rparr>\<close>
  by (simp add: Unmarshal_RpcResponse_def store_RpcResponse_def json_store_defs json_scan_defs)

lemma escape_string_replicate_a: "escape_string (replicate n (CHR ''a'')) = replicate n (CHR ''a'')"
  by (induction n) simp_all

lemma marshal_big_request:
  \<open>Marshal_RpcRequest \<lparr>req_ID = 1, req_Method = replicate 16777216 (CHR ''a''), req_Params = None\<rparr>
   = Inr (''{"id":1,"method":"'' @ replicate 16777216 (CHR ''a'') @ ''","params":null}'')\<close>
  by (simp add: json_marshal_defs escape_string_replicate_a)

section \<open>Response ids\<close>

text \<open>
  Claim C1, as stated: the id of the response consumed equals the id of the request, and
  a response whose id does not match is a protocol error.  \<open>call\<close> never looks at the id
  of the response.  On a fresh client the first request carries id 1; a response frame
  with id 2 and a result is consumed and its result returned as a success.
\<close>


theorem call_accepts_mismatched_id:
  \<open>call \<lparr>Deadline = None, Cancelled = False\<rparr> ''credential.list'' (GoMap [])
      \<lparr>conn = \<lparr>inbound = frame ''{"id":2,"result":true}'', outbound = [], conn_closed = False,
               conn_deadline = None, now = 0\<rparr>, nextID = 1\<rparr>
    = (Inr (Some ''true''),
       \<lparr>conn = \<lparr>inbound = [], outbound = frame ''{"id":1,"method":"credential.list","params":{}}'',
                conn_closed = False, conn_deadline = None, now = 0\<rparr>, nextID = 2\<rparr>)\<close>
proof -
  let ?c = \<open>\<lparr>conn = \<lparr>inbound = frame ''{"id":2,"result":true}'', outbound = [], conn_closed = False,
               conn_deadline = None, now = 0\<rparr>, nextID = 1\<rparr>\<close>
  let ?ctx = "\<lparr>Deadline = None, Cancelled = False\<rparr>"
  have u: "usable ?ctx (conn ?c)" by (simp add: usable_def deadline_passed_def)
  have m: \<open>Marshal_RpcRequest \<lparr>req_ID = nextID ?c, req_Method = ''credential.list'', req_Params = Some ''{}''\<rparr>
   = Inr ''{"id":1,"method":"credential.list","params":{}}''\<close>
    using marshal_list_request_1 by simp
  have i: \<open>inbound (conn ?c) = frame ''{"id":2,"result":true}'' @ []\<close> by simp
  have l: \<open>length ''{"id":2,"result":true}'' \<le> maxFrameSize\<close> by (simp add: maxFrameSize_def)
  show ?thesis
    using call_frame [OF u marshal_empty_params m i l unmarshal_response_id2]
    by (simp add: outcome_def)
qed

text \<open>
  Claim C1, amended.  The dispatcher does not compare the id of the response with the id
  of the request: the outcome of a call is decided by the error and result fields of the
  decoded response alone, and is the same whatever id the response carries.
\<close>


theorem response_id_not_compared:
  assumes "usable ctx (conn c)" "json_Marshal params = Inr pb"
    "Marshal_RpcRequest \<lparr>req_ID = nextID c, req_Method = m, req_Params = Some pb\<rparr> = Inr payload"
    "inbound (conn c) = frame p @ rest" "length p \<le> maxFrameSize" "Unmarshal_RpcResponse p = Inr resp"
  shows "fst (call ctx m params c) = outcome resp \<and> outcome (resp\<lparr>resp_ID := i\<rparr>) = outcome resp"
  using call_frame [OF assms] by (simp add: outcome_def split: option.splits)

theorem response_id_not_compared_witness:
  \<open>fst (call \<lparr>Deadline = None, Cancelled = False\<rparr> ''credential.list'' (GoMap [])
      \<lparr>conn = \<lparr>inbound = frame ''{"id":2,"result":true}'', outbound = [], conn_closed = False,
               conn_deadline = None, now = 0\<rparr>, nextID = 1\<rparr>)
    = outcome \<lparr>resp_ID = 2, resp_Result = Some ''true'', resp_Error = None\<rparr>
   \<and> outcome \<lparr>resp_ID = 1, resp_Result = Some ''true'', resp_Error = None\<rparr>
     = outcome \<lparr>resp_ID = 2, resp_Result = Some ''true'', resp_Error = None\<rparr>
   \<and> outcome \<lparr>resp_ID = 2, resp_Result = Some ''true'', resp_Error = None\<rparr> = Inr (Some ''true'')\<close>
proof -
  let ?c = \<open>\<lparr>conn = \<lparr>inbound = frame ''{"id":2,"result":true}'', outbound = [], conn_closed = False,
               conn_deadline = None, now = 0\<rparr>, nextID = 1\<rparr>\<close>
  let ?ctx = "\<lparr>Deadline = None, Cancelled = False\<rparr>"
  have u: "usable ?ctx (conn ?c)" by (simp add: usable_def deadline_passed_def)
  have m: \<open>Marshal_RpcRequest \<lparr>req_ID = nextID ?c, req_Method = ''credential.list'', req_Params = Some ''{}''\<rparr>
   = Inr ''{"id":1,"method":"credential.list","params":{}}''\<close>
    using marshal_list_request_1 by simp
  have i: \<open>inbound (conn ?c) = frame ''{"id":2,"result":true}'' @ []\<close> by simp
  have l: \<open>length ''{"id":2,"result":true}'' \<le> maxFrameSize\<close> by (simp add: maxFrameSize_def)
  show ?thesis
    using response_id_not_compared [OF u marshal_empty_params m i l unmarshal_response_id2, of 1]
    by (simp add: outcome_def)
qed

section \<open>Error payloads\<close>




section \<open>The frame round trip\<close>

text \<open>
  Claim C2, as stated: encoding with \<open>writeFrame\<close> and decoding with \<open>readFrame\<close> yields
  the identical structured content.  \<open>writeFrame\<close> encodes a request and \<open>readFrame\<close>
  decodes a response, which has neither a method nor parameters: two different requests
  come back as the same response, so the content is not preserved.
\<close>


theorem round_trip_loses_method_and_params:
  \<open>\<lparr>req_ID = 1, req_Method = ''test.method'', req_Params = Some ''{"key":"value"}''\<rparr>
     \<noteq> \<lparr>req_ID = 1, req_Method = ''other'', req_Params = Some ''[]''\<rparr>
   \<and> fst (readFrame
        (\<lparr>inbound = outbound (snd (writeFrame
             \<lparr>inbound = [], outbound = [], conn_closed = False, conn_deadline = None, now = 0\<rparr>
             \<lparr>req_ID = 1, req_Method = ''test.method'', req_Params = Some ''{"key":"value"}''\<rparr>)),
           outbound = [], conn_closed = False, conn_deadline = None, now = 0\<rparr>))
     = Inr \<lparr>resp_ID = 1, resp_Result = None, resp_Error = None\<rparr>
   \<and> fst (readFrame
        (\<lparr>inbound = outbound (snd (writeFrame
             \<lparr>inbound = [], outbound = [], conn_closed = False, conn_deadline = None, now = 0\<rparr>
             \<lparr>req_ID = 1, req_Method = ''other'', req_Params = Some ''[]''\<rparr>)),
           outbound = [], conn_closed = False, conn_deadline = None, now = 0\<rparr>))
     = Inr \<lparr>resp_ID = 1, resp_Result = None, resp_Error = None\<rparr>\<close>
proof -
  let ?w = "\<lparr>inbound = [], outbound = [], conn_closed = False, conn_deadline = None, now = 0\<rparr>"
  have h: "healthy ?w" by (simp add: healthy_def deadline_passed_def)
  have w1: \<open>outbound (snd (writeFrame ?w
      \<lparr>req_ID = 1, req_Method = ''test.method'', req_Params = Some ''{"key":"value"}''\<rparr>))
      = frame ''{"id":1,"method":"test.method","params":{"key":"value"}}'' @ []\<close>
    by (simp add: writeFrame_healthy [OF h marshal_test_request])
  have w2: \<open>outbound (snd (writeFrame ?w
      \<lparr>req_ID = 1, req_Method = ''other'', req_Params = Some ''[]''\<rparr>))
      = frame ''{"id":1,"method":"other","params":[]}'' @ []\<close>
    by (simp add: writeFrame_healthy [OF h marshal_other_request])
  have r1: \<open>fst (readFrame (\<lparr>inbound = frame ''{"id":1,"method":"test.method","params":{"key":"value"}}'' @ [],
           outbound = [], conn_closed = False, conn_deadline = None, now = 0\<rparr>))
     = Inr \<lparr>resp_ID = 1, resp_Result = None, resp_Error = None\<rparr>\<close>
    by (subst readFrame_frame [where p = \<open>''{"id":1,"method":"test.method","params":{"key":"value"}}''\<close> and rest = "[]"])
      (simp_all add: healthy_def deadline_passed_def maxFrameSize_def unmarshal_test_request_as_response)
  have r2: \<open>fst (readFrame (\<lparr>inbound = frame ''{"id":1,"method":"other","params":[]}'' @ [],
           outbound = [], conn_closed = False, conn_deadline = None, now = 0\<rparr>))
     = Inr \<lparr>resp_ID = 1, resp_Result = None, resp_Error = None\<rparr>\<close>
    by (subst readFrame_frame [where p = \<open>''{"id":1,"method":"other","params":[]}''\<close> and rest = "[]"])
      (simp_all add: healthy_def deadline_passed_def maxFrameSize_def unmarshal_other_request_as_response)
  show ?thesis
    unfolding w1 w2 using r1 r2 by simp
qed

text \<open>
  Claim C2, amended.  For every request whose JSON encoding is a valid frame (at most
  16 MiB), \<open>writeFrame\<close> writes the 4-byte big-endian length prefix, equal to the exact
  byte length of the payload, followed by the payload; \<open>readFrame\<close> on those bytes
  consumes exactly that frame and decodes exactly the payload that was written, as a
  response.
\<close>


theorem frame_round_trip:
  assumes "healthy w" "healthy r" "Marshal_RpcRequest req = Inr payload" "length payload \<le> 16777216"
  shows "writeFrame w req =
           (None, w\<lparr>outbound := outbound w @ PutUint32 (word_of_nat (length payload)) @ payload\<rparr>)
       \<and> unat (word_of_nat (length payload) :: 32 word) = length payload
       \<and> readFrame (r\<lparr>inbound := PutUint32 (word_of_nat (length payload)) @ payload @ rest\<rparr>) =
           (case Unmarshal_RpcResponse payload of
              Inl err \<Rightarrow> Inl (Errorf ''unmarshal response: '' (JSONError err))
            | Inr resp \<Rightarrow> Inr resp,
            r\<lparr>inbound := rest\<rparr>)"
proof -
  have l: "length payload \<le> maxFrameSize" using assms(4) by (simp add: maxFrameSize_def)
  have h: "healthy (r\<lparr>inbound := PutUint32 (word_of_nat (length payload)) @ payload @ rest\<rparr>)"
    using assms(2) by simp
  have i: "inbound (r\<lparr>inbound := PutUint32 (word_of_nat (length payload)) @ payload @ rest\<rparr>)
      = frame payload @ rest" by (simp add: frame_def)
  show ?thesis
    using writeFrame_healthy [OF assms(1,3)] unat_frame_length [OF l] readFrame_frame [OF h i l]
    by (simp add: frame_def)
qed

theorem frame_round_trip_witness:
  \<open>writeFrame \<lparr>inbound = [], outbound = [], conn_closed = False, conn_deadline = None, now = 0\<rparr>
      \<lparr>req_ID = 1, req_Method = ''test.method'', req_Params = Some ''{"key":"value"}''\<rparr>
    = (None, \<lparr>inbound = [],
              outbound = PutUint32 56 @ ''{"id":1,"method":"test.method","params":{"key":"value"}}'',
              conn_closed = False, conn_deadline = None, now = 0\<rparr>)
   \<and> readFrame \<lparr>inbound = PutUint32 56 @ ''{"id":1,"method":"test.method","params":{"key":"value"}}'' @ ''next'',
                outbound = [], conn_closed = False, conn_deadline = None, now = 0\<rparr>
    = (Inr \<lparr>resp_ID = 1, resp_Result = None, resp_Error = None\<rparr>,
       \<lparr>inbound = ''next'', outbound = [], conn_closed = False, conn_deadline = None, now = 0\<rparr>)\<close>
proof -
  let ?w = "\<lparr>inbound = [], outbound = [], conn_closed = False, conn_deadline = None, now = 0\<rparr>"
  have h: "healthy ?w" by (simp add: healthy_def deadline_passed_def)
  have l: \<open>length ''{"id":1,"method":"test.method","params":{"key":"value"}}'' \<le> 16777216\<close> by simp
  show ?thesis
    using frame_round_trip [OF h h marshal_test_request l, of "''next''"]
    by (simp add: unmarshal_test_request_as_response)
qed

section \<open>No size ceiling on encode\<close>

text \<open>
  Claim C9.  \<open>writeFrame\<close> performs no maximum-size check: for every payload, whatever
  its length, encoding succeeds on a connection that accepts the writes, and the length
  prefix is the payload length truncated to an unsigned 32-bit integer.  The 16 MiB
  ceiling is enforced on decode only: a frame that \<open>writeFrame\<close> wrote for a payload
  above 16 MiB is rejected by \<open>readFrame\<close>.
\<close>


theorem writeFrame_no_size_check:
  assumes "healthy w" "Marshal_RpcRequest req = Inr payload"
  shows "writeFrame w req =
           (None, w\<lparr>outbound := outbound w @ PutUint32 (word_of_nat (length payload)) @ payload\<rparr>)
       \<and> unat (word_of_nat (length payload) :: 32 word) = length payload mod 4294967296
       \<and> (healthy r \<and> 16777216 < length payload \<and> length payload < 4294967296 \<longrightarrow>
            readFrame (r\<lparr>inbound := PutUint32 (word_of_nat (length payload)) @ payload @ rest\<rparr>) =
              (Inl (ProtocolError (''frame too large: '' @ show_nat (length payload) @ '' bytes'')),
               r\<lparr>inbound := payload @ rest\<rparr>))"
proof -
  have u: "unat (word_of_nat (length payload) :: 32 word) = length payload mod 4294967296"
    by (simp add: unat_of_nat)
  have rd: "readFrame (r\<lparr>inbound := PutUint32 (word_of_nat (length payload)) @ payload @ rest\<rparr>) =
              (Inl (ProtocolError (''frame too large: '' @ show_nat (length payload) @ '' bytes'')),
               r\<lparr>inbound := payload @ rest\<rparr>)"
    if "healthy r" "16777216 < length payload" "length payload < 4294967296"
  proof -
    have h: "healthy (r\<lparr>inbound := PutUint32 (word_of_nat (length payload)) @ payload @ rest\<rparr>)"
      using that(1) by simp
    have ul: "unat (Uint32 (PutUint32 (word_of_nat (length payload)))) = length payload"
      using that(3) by (simp add: Uint32_PutUint32 u)
    show ?thesis
      using readFrame_too_large [OF h length_PutUint32, of "word_of_nat (length payload)" "payload @ rest"]
        that(2) by (simp add: ul maxFrameSize_def)
  qed
  show ?thesis
    using writeFrame_healthy [OF assms] u rd by (simp add: frame_def)
qed

theorem writeFrame_no_size_check_witness:
  \<open>writeFrame \<lparr>inbound = [], outbound = [], conn_closed = False, conn_deadline = None, now = 0\<rparr>
      \<lparr>req_ID = 1, req_Method = replicate 16777216 (CHR ''a''), req_Params = None\<rparr>
    = (None, \<lparr>inbound = [],
              outbound = PutUint32 16777250 @ ''{"id":1,"method":"'' @ replicate 16777216 (CHR ''a'')
                           @ ''","params":null}'',
              conn_closed = False, conn_deadline = None, now = 0\<rparr>)
   \<and> readFrame \<lparr>inbound = PutUint32 16777250 @ ''{"id":1,"method":"'' @ replicate 16777216 (CHR ''a'')
                           @ ''","params":null}'',
                outbound = [], conn_closed = False, conn_deadline = None, now = 0\<rparr>
    = (Inl (ProtocolError ''frame too large: 16777250 bytes''),
       \<lparr>inbound = ''{"id":1,"method":"'' @ replicate 16777216 (CHR ''a'') @ ''","params":null}'',
        outbound = [], conn_closed = False, conn_deadline = None, now = 0\<rparr>)\<close>
proof -
  let ?w = "\<lparr>inbound = [], outbound = [], conn_closed = False, conn_deadline = None, now = 0\<rparr>"
  have h: "healthy ?w" by (simp add: healthy_def deadline_passed_def)
  have s: "show_nat 16777250 = ''16777250''" by (simp add: show_nat.simps hextable_def)
  show ?thesis
    using writeFrame_no_size_check [OF h marshal_big_request, of ?w "[]"] h
    by (simp add: s)
qed

section \<open>Cancellation and deadlines\<close>

text \<open>
  Claim C6, as stated: a call whose cancellation or deadline signal triggers while it
  waits for the exchange section returns without having sent anything.  \<open>call\<close> reads
  the deadline of the context and nothing else, and hands it to \<^verbatim>\<open>SetDeadline\<close>.  With a
  context that is cancelled and has no deadline, the call writes its request frame once
  it holds the lock; so it does with a context whose deadline is the zero time, which
  \<^verbatim>\<open>SetDeadline\<close> takes for no deadline.
\<close>


theorem cancelled_context_still_sends:
  \<open>ctx_done \<lparr>Deadline = None, Cancelled = True\<rparr> 5
   \<and> call \<lparr>Deadline = None, Cancelled = True\<rparr> ''credential.list'' (GoMap [])
      \<lparr>conn = \<lparr>inbound = [], outbound = [], conn_closed = False, conn_deadline = None, now = 5\<rparr>,
       nextID = 1\<rparr>
   = (Inl (Errorf ''read length: '' EOF),
      \<lparr>conn = \<lparr>inbound = [], outbound = frame ''{"id":1,"method":"credential.list","params":{}}'',
               conn_closed = False, conn_deadline = None, now = 5\<rparr>,
       nextID = 2\<rparr>)
   \<and> ctx_done \<lparr>Deadline = Some 0, Cancelled = True\<rparr> 5
   \<and> call \<lparr>Deadline = Some 0, Cancelled = True\<rparr> ''credential.list'' (GoMap [])
      \<lparr>conn = \<lparr>inbound = [], outbound = [], conn_closed = False, conn_deadline = None, now = 5\<rparr>,
       nextID = 1\<rparr>
   = (Inl (Errorf ''read length: '' EOF),
      \<lparr>conn = \<lparr>inbound = [], outbound = frame ''{"id":1,"method":"credential.list","params":{}}'',
               conn_closed = False, conn_deadline = None, now = 5\<rparr>,
       nextID = 2\<rparr>)\<close>
  using marshal_list_request_1
  by (simp add: ctx_done_def call_def exchange_def writeFrame_def conn_Write_def deadline_passed_def
      conn_SetDeadline_def readFrame_def io_ReadFull_def frame_def)

text \<open>
  Claim C6, amended.  Whether the context has been cancelled has no effect on a call.
  When the context has a deadline other than the zero time that has already passed when
  the call enters the exchange section, the call returns an error without having sent
  anything on the transport.
\<close>


theorem expired_deadline_sends_nothing:
  "call (ctx\<lparr>Cancelled := b\<rparr>) m params c = call ctx m params c
   \<and> (Deadline ctx = Some d \<and> d \<noteq> 0 \<and> d \<le> now (conn c) \<longrightarrow>
        isl (fst (call ctx m params c))
        \<and> outbound (conn (snd (call ctx m params c))) = outbound (conn c))"
proof -
  have same: "call (ctx\<lparr>Cancelled := b\<rparr>) m params c = call ctx m params c"
    by (cases "json_Marshal params") (simp_all add: call_def)
  have unsent: "isl (fst (call ctx m params c))
        \<and> outbound (conn (snd (call ctx m params c))) = outbound (conn c)"
    if dl: "Deadline ctx = Some d" and nz: "d \<noteq> 0" and past: "d \<le> now (conn c)"
  proof (cases "json_Marshal params")
    case (Inl e)
    then show ?thesis by (simp add: call_marshal_fails)
  next
    case (Inr pb)
    show ?thesis
    proof (cases "conn_closed (conn c)")
      case True
      then show ?thesis using dl Inr by (simp add: call_def conn_SetDeadline_def)
    next
      case False
      let ?cn = "(conn c)\<lparr>conn_deadline := Some d\<rparr>"
      let ?req = "\<lparr>req_ID = nextID c, req_Method = m, req_Params = Some pb\<rparr>"
      have nh: "\<not> healthy ?cn" using past by (simp add: healthy_def deadline_passed_def)
      have ex: "outbound (snd (exchange ?cn ?req)) = outbound ?cn \<and> isl (fst (exchange ?cn ?req))"
        using exchange_cases [of ?cn ?req] nh by blast
      have d: "Some d = (if d = 0 then None else Some d)" using nz by simp
      note c = call_deadline_open [OF Inr dl False d, of m]
      show ?thesis using ex by (simp add: c)
    qed
  qed
  show ?thesis
  proof (intro conjI impI)
    show "call (ctx\<lparr>Cancelled := b\<rparr>) m params c = call ctx m params c" by (rule same)
  next
    assume "Deadline ctx = Some d \<and> d \<noteq> 0 \<and> d \<le> now (conn c)"
    then show "isl (fst (call ctx m params c))" using unsent by simp
  next
    assume "Deadline ctx = Some d \<and> d \<noteq> 0 \<and> d \<le> now (conn c)"
    then show "outbound (conn (snd (call ctx m params c))) = outbound (conn c)" using unsent by simp
  qed
qed

theorem expired_deadline_sends_nothing_witness:
  \<open>call \<lparr>Deadline = Some 5, Cancelled = True\<rparr> ''credential.list'' (GoMap [])
      \<lparr>conn = \<lparr>inbound = [], outbound = [], conn_closed = False, conn_deadline = None, now = 10\<rparr>,
       nextID = 1\<rparr>
   = call \<lparr>Deadline = Some 5, Cancelled = False\<rparr> ''credential.list'' (GoMap [])
      \<lparr>conn = \<lparr>inbound = [], outbound = [], conn_closed = False, conn_deadline = None, now = 10\<rparr>,
       nextID = 1\<rparr>
   \<and> call \<lparr>Deadline = Some 5, Cancelled = False\<rparr> ''credential.list'' (GoMap [])
      \<lparr>conn = \<lparr>inbound = [], outbound = [], conn_closed = False, conn_deadline = None, now = 10\<rparr>,
       nextID = 1\<rparr>
   = (Inl (Errorf ''write length: '' ErrDeadlineExceeded),
      \<lparr>conn = \<lparr>inbound = [], outbound = [], conn_closed = False, conn_deadline = None, now = 10\<rparr>,
       nextID = 2\<rparr>)
   \<and> (5::int) \<noteq> 0 \<and> (5::int) \<le> 10\<close>
proof -
  let ?ctx = "\<lparr>Deadline = Some 5, Cancelled = False\<rparr>"
  let ?c = "\<lparr>conn = \<lparr>inbound = [], outbound = [], conn_closed = False, conn_deadline = None, now = 10\<rparr>,
       nextID = 1\<rparr>"
  have v: \<open>call ?ctx ''credential.list'' (GoMap []) ?c
   = (Inl (Errorf ''write length: '' ErrDeadlineExceeded),
      \<lparr>conn = \<lparr>inbound = [], outbound = [], conn_closed = False, conn_deadline = None, now = 10\<rparr>,
       nextID = 2\<rparr>)\<close>
    using marshal_list_request_1
    by (simp add: call_def conn_SetDeadline_def exchange_def writeFrame_def conn_Write_def
        deadline_passed_def)
  show ?thesis
    using expired_deadline_sends_nothing [where ctx = ?ctx and b = True and m = "''credential.list''"
        and params = "GoMap []" and c = ?c and d = 5] v
    by simp
qed

end
